theory Spec2Isabelle
  imports Complex_Main
begin

section \<open>The quantum autoencoder circuit builder (qae\_circuit.py)\<close>

text \<open>
  A shallow embedding of class \<open>QAECircuit\<close>. Angles are real numbers, qubit labels and
  the two qubit counts are natural numbers, gate names and axes are strings. A raised
  Python exception is the left summand of a sum type. The object \<open>self\<close> is a record;
  \<open>build_circuit\<close> assigns to \<open>self.program\<close>, so it returns the object together with
  its outcome.
\<close>

subsection \<open>Python values\<close>

datatype py_error = KeyError | IndexError

text \<open>\<open>xs[i]\<close> for an index \<open>i \<ge> 0\<close>: raises IndexError out of range.\<close>

definition py_index :: "'a list \<Rightarrow> nat \<Rightarrow> py_error + 'a" where
  "py_index xs i = (if i < length xs then Inr (xs ! i) else Inl IndexError)"

text \<open>\<open>xs[a:b]\<close> for \<open>a, b \<ge> 0\<close>: never raises, a range past the end is cut short.\<close>

definition py_slice :: "'a list \<Rightarrow> nat \<Rightarrow> nat \<Rightarrow> 'a list" where
  "py_slice xs a b = take (b - a) (drop a xs)"

text \<open>\<open>dict(pairs)\<close>: a later pair overrides an earlier one with the same key.\<close>

definition py_dict :: "('k \<times> 'v) list \<Rightarrow> ('k \<rightharpoonup> 'v)" where
  "py_dict kvs = fold (\<lambda>(k, v) m. m(k \<mapsto> v)) kvs Map.empty"

subsection \<open>Gates, gate definitions and the registry\<close>

text \<open>
  pyquil is not part of the repository. Its interface is taken as the specification
  describes it: a gate constructor turns angle(s) and then qubit(s) into an instruction
  \<open>Gate(name, params, qubits)\<close> carrying the constructor's gate name; a program is the
  ordered list of its gate instructions, and gate definitions (\<open>DefGate\<close>) are kept apart
  from the instructions.
\<close>

datatype gate = Gate (gate_name: string) (gate_params: "real list") (gate_qubits: "nat list")

type_synonym program = "gate list"

type_synonym gate_constructor = "real list \<Rightarrow> nat list \<Rightarrow> gate"

text \<open>A gate definition: its name and its matrix as a function of the parameter theta.\<close>

datatype def_gate = DefGate (def_name: string) (def_matrix: "real \<Rightarrow> complex list list")

definition get_constructor :: "def_gate \<Rightarrow> gate_constructor" where
  "get_constructor d = (\<lambda>params qubits. Gate (def_name d) params qubits)"

definition RX :: gate_constructor where
  "RX = (\<lambda>params qubits. Gate ''RX'' params qubits)"

definition RY :: gate_constructor where
  "RY = (\<lambda>params qubits. Gate ''RY'' params qubits)"

definition RZ :: gate_constructor where
  "RZ = (\<lambda>params qubits. Gate ''RZ'' params qubits)"

definition crx :: "real \<Rightarrow> complex list list" where
  "crx theta =
    [[1, 0, 0, 0],
     [0, 1, 0, 0],
     [0, 0, complex_of_real (cos (theta / 2)), - 1 * \<i> * complex_of_real (sin (theta / 2))],
     [0, 0, - 1 * \<i> * complex_of_real (sin (theta / 2)), complex_of_real (cos (theta / 2))]]"

definition crx_def :: def_gate where
  "crx_def = DefGate ''CRX'' crx"

definition CRX :: gate_constructor where
  "CRX = get_constructor crx_def"

definition cry :: "real \<Rightarrow> complex list list" where
  "cry theta =
    [[1, 0, 0, 0],
     [0, 1, 0, 0],
     [0, 0, complex_of_real (cos (theta / 2)), - 1 * complex_of_real (sin (theta / 2))],
     [0, 0, complex_of_real (sin (theta / 2)), complex_of_real (cos (theta / 2))]]"

definition cry_def :: def_gate where
  "cry_def = DefGate ''CRY'' cry"

definition CRY :: gate_constructor where
  "CRY = get_constructor cry_def"

definition crz :: "real \<Rightarrow> complex list list" where
  "crz theta =
    [[1, 0, 0, 0],
     [0, 1, 0, 0],
     [0, 0, complex_of_real (cos (theta / 2)) - 1 * \<i> * complex_of_real (sin (theta / 2)), 0],
     [0, 0, 0, complex_of_real (cos (theta / 2)) + 1 * \<i> * complex_of_real (sin (theta / 2))]]"

definition crz_def :: def_gate where
  "crz_def = DefGate ''CRZ'' crz"

text \<open>Line 74 of the source: \<open>CRZ = crx_def.get_constructor()\<close>.\<close>

definition CRZ :: gate_constructor where
  "CRZ = get_constructor crx_def"

definition gates_dict :: "string \<rightharpoonup> gate_constructor" where
  "gates_dict = py_dict
    [(''RX'', RX), (''CRX'', CRX),
     (''RY'', RY), (''CRY'', CRY),
     (''RZ'', RZ), (''CRZ'', CRZ)]"

subsection \<open>The object and its constructor\<close>

record qae_circuit =
  num_qubits :: nat
  num_latent_qubits :: nat
  num_input_qubits :: nat
  qubits :: "nat list"
  axes :: "string list"
  thetas :: "real list"
  program :: program

text \<open>\<open>__init__\<close>; an absent optional argument is \<open>None\<close>.\<close>

definition init ::
  "nat \<Rightarrow> nat \<Rightarrow> real list \<Rightarrow> string list option \<Rightarrow> nat list option \<Rightarrow> qae_circuit" where
  "init num_qubits' num_latent_qubits' thetas' axes' qubits' =
    (let num_input_qubits' = (num_qubits' + num_latent_qubits') div 2 in
     \<lparr> num_qubits = num_qubits',
       num_latent_qubits = num_latent_qubits',
       num_input_qubits = num_input_qubits',
       qubits = (case qubits' of None \<Rightarrow> [0..<num_qubits'] | Some qs \<Rightarrow> qs),
       axes = (case axes' of None \<Rightarrow> replicate (num_input_qubits' + 2) ''X'' | Some ax \<Rightarrow> ax),
       thetas = thetas',
       program = [] \<rparr>)"

subsection \<open>The block builders\<close>

definition gate_from_axis :: "string \<Rightarrow> nat \<Rightarrow> py_error + gate_constructor" where
  "gate_from_axis axes' num_qubits' =
    (let gate_str = ''R'' @ axes';
         gate_str = (if 2 = num_qubits' then ''C'' @ gate_str else gate_str)
     in case gates_dict gate_str of None \<Rightarrow> Inl KeyError | Some g \<Rightarrow> Inr g)"

text \<open>
  The loop of \<open>build_rotation_block\<close>: \<open>i\<close> is the position of the next qubit, the last
  argument the program built so far.
\<close>

fun rotation_loop ::
  "gate_constructor \<Rightarrow> real list \<Rightarrow> nat \<Rightarrow> nat list \<Rightarrow> program \<Rightarrow> py_error + program" where
  "rotation_loop gate thetas' i [] prog = Inr prog"
| "rotation_loop gate thetas' i (qubit # rest) prog =
    (case py_index thetas' i of
       Inl e \<Rightarrow> Inl e
     | Inr theta \<Rightarrow> rotation_loop gate thetas' (Suc i) rest (prog @ [gate [theta] [qubit]]))"

definition build_rotation_block ::
  "string \<Rightarrow> nat list \<Rightarrow> real list \<Rightarrow> py_error + program" where
  "build_rotation_block axis qubits' thetas' =
    (case gate_from_axis axis 1 of
       Inl e \<Rightarrow> Inl e
     | Inr gate \<Rightarrow> rotation_loop gate thetas' 0 qubits' [])"

text \<open>The loop of \<open>build_controlled_rotation_block\<close>: \<open>i\<close> counts the angles consumed.\<close>

fun controlled_loop ::
  "gate_constructor \<Rightarrow> real list \<Rightarrow> nat \<Rightarrow> nat \<Rightarrow> nat list \<Rightarrow> program \<Rightarrow> py_error + program"
  where
  "controlled_loop gate thetas' qubit_control i [] prog = Inr prog"
| "controlled_loop gate thetas' qubit_control i (qubit # rest) prog =
    (if qubit \<noteq> qubit_control then
       (case py_index thetas' i of
          Inl e \<Rightarrow> Inl e
        | Inr theta \<Rightarrow>
            controlled_loop gate thetas' qubit_control (Suc i) rest
              (prog @ [gate [theta] [qubit_control, qubit]]))
     else controlled_loop gate thetas' qubit_control i rest prog)"

definition build_controlled_rotation_block ::
  "string \<Rightarrow> nat list \<Rightarrow> real list \<Rightarrow> nat \<Rightarrow> py_error + program" where
  "build_controlled_rotation_block axis qubits' thetas' qubit_control =
    (case gate_from_axis axis 2 of
       Inl e \<Rightarrow> Inl e
     | Inr gate \<Rightarrow> controlled_loop gate thetas' qubit_control 0 qubits' [])"

subsection \<open>Dagger and flip\<close>

definition qubits_reversed :: "nat list \<Rightarrow> (nat \<rightharpoonup> nat)" where
  "qubits_reversed qubits' = py_dict (zip qubits' (rev qubits'))"

text \<open>The inner loop: look every qubit of one gate up in the mapping.\<close>

fun lookup_qubits :: "(nat \<rightharpoonup> nat) \<Rightarrow> nat list \<Rightarrow> py_error + nat list" where
  "lookup_qubits m [] = Inr []"
| "lookup_qubits m (i # rest) =
    (case m i of
       None \<Rightarrow> Inl KeyError
     | Some q \<Rightarrow> (case lookup_qubits m rest of Inl e \<Rightarrow> Inl e | Inr qs \<Rightarrow> Inr (q # qs)))"

text \<open>The outer loop over the reversed instructions.\<close>

fun flip_loop :: "(nat \<rightharpoonup> nat) \<Rightarrow> gate list \<Rightarrow> program \<Rightarrow> py_error + program" where
  "flip_loop m [] flipped_program = Inr flipped_program"
| "flip_loop m (g # rest) flipped_program =
    (case lookup_qubits m (gate_qubits g) of
       Inl e \<Rightarrow> Inl e
     | Inr gate_qubits' \<Rightarrow>
         (let negated_params = map (\<lambda>x. - 1 * x) (gate_params g)
          in case gates_dict (gate_name g) of
               None \<Rightarrow> Inl KeyError
             | Some ctor \<Rightarrow>
                 flip_loop m rest (flipped_program @ [ctor negated_params gate_qubits'])))"

definition dagger_and_flip :: "program \<Rightarrow> nat list \<Rightarrow> py_error + program" where
  "dagger_and_flip prog qubits' = flip_loop (qubits_reversed qubits') (rev prog) []"

subsection \<open>Building the circuit\<close>

text \<open>
  \<open>def_gates_program\<close> holds the three gate definitions and no instruction, so adding it
  leaves the instruction list as it is.
\<close>

definition def_gates_program :: program where
  "def_gates_program = []"

text \<open>
  The \<open>for i in range(num_input_qubits)\<close> loop of \<open>build_circuit\<close>, over the indices
  still to visit. An exception leaves \<open>self.program\<close> as the earlier iterations made it.
\<close>

fun controlled_blocks ::
  "nat list \<Rightarrow> nat list \<Rightarrow> qae_circuit \<Rightarrow> (py_error + unit) \<times> qae_circuit" where
  "controlled_blocks qubits' [] self = (Inr (), self)"
| "controlled_blocks qubits' (i # rest) self =
    (case py_index (axes self) (i + 1) of
       Inl e \<Rightarrow> (Inl e, self)
     | Inr axis \<Rightarrow>
        (case py_index qubits' i of
           Inl e \<Rightarrow> (Inl e, self)
         | Inr control_qubit \<Rightarrow>
            (let start_theta = num_input_qubits self + (num_input_qubits self - 1) * i;
                 end_theta = start_theta + (num_input_qubits self - 1);
                 thetas' = py_slice (thetas self) start_theta end_theta
             in case build_controlled_rotation_block axis qubits' thetas' control_qubit of
                  Inl e \<Rightarrow> (Inl e, self)
                | Inr p \<Rightarrow>
                    controlled_blocks qubits' rest (self\<lparr>program := program self @ p\<rparr>))))"

text \<open>Lines 149 to 171 of \<open>build_circuit\<close>: everything before the \<open>return\<close>.\<close>

definition build_encode :: "qae_circuit \<Rightarrow> (py_error + unit) \<times> qae_circuit" where
  "build_encode self0 =
    (let self1 = self0\<lparr>program := program self0 @ def_gates_program\<rparr>;
         qubits' = py_slice (qubits self1) 0 (num_input_qubits self1);
         thetas' = py_slice (thetas self1) 0 (num_input_qubits self1)
     in case py_index (axes self1) 0 of
          Inl e \<Rightarrow> (Inl e, self1)
        | Inr axis \<Rightarrow>
      (case build_rotation_block axis qubits' thetas' of
          Inl e \<Rightarrow> (Inl e, self1)
        | Inr p \<Rightarrow>
      (let self2 = self1\<lparr>program := program self1 @ p\<rparr>
       in case controlled_blocks qubits' [0..<num_input_qubits self2] self2 of
          (Inl e, self3) \<Rightarrow> (Inl e, self3)
        | (Inr u, self3) \<Rightarrow>
      (case py_index (axes self3) (num_input_qubits self3 + 1) of
          Inl e \<Rightarrow> (Inl e, self3)
        | Inr axis' \<Rightarrow>
      (let start_theta = num_input_qubits self3
                         + (num_input_qubits self3 - 1) * num_input_qubits self3;
           end_theta = start_theta + num_input_qubits self3;
           thetas'' = py_slice (thetas self3) start_theta end_theta
       in case build_rotation_block axis' qubits' thetas'' of
          Inl e \<Rightarrow> (Inl e, self3)
        | Inr p' \<Rightarrow> (Inr (), self3\<lparr>program := program self3 @ p'\<rparr>))))))"

text \<open>
  \<open>build_circuit\<close>: the returned program is a new object, \<open>self.program\<close> keeps the
  encode stage.
\<close>

definition build_circuit :: "qae_circuit \<Rightarrow> (py_error + program) \<times> qae_circuit" where
  "build_circuit self0 =
    (case build_encode self0 of
       (Inl e, self1) \<Rightarrow> (Inl e, self1)
     | (Inr u, self1) \<Rightarrow>
        (case dagger_and_flip (program self1) (qubits self1) of
           Inl e \<Rightarrow> (Inl e, self1)
         | Inr flipped \<Rightarrow> (Inr (program self1 @ flipped), self1)))"

subsection \<open>Descriptions used by the properties\<close>

text \<open>
  The \<open>k\<close>-th block of the encode stage exactly as \<open>build_circuit\<close> requests it: block
  \<open>0\<close> is the initial rotation block, blocks \<open>1\<close> to \<open>n\<close> are the controlled blocks
  of the loop iterations \<open>i = k - 1\<close>, and block \<open>n + 1\<close> is the final rotation block.
\<close>

definition block_result :: "qae_circuit \<Rightarrow> nat \<Rightarrow> py_error + program" where
  "block_result self k =
    (let n = num_input_qubits self;
         qubits' = py_slice (qubits self) 0 n
     in case py_index (axes self) k of
          Inl e \<Rightarrow> Inl e
        | Inr axis \<Rightarrow>
            if k = 0 then build_rotation_block axis qubits' (py_slice (thetas self) 0 n)
            else if k \<le> n then
              (case py_index qubits' (k - 1) of
                 Inl e \<Rightarrow> Inl e
               | Inr control_qubit \<Rightarrow>
                   build_controlled_rotation_block axis qubits'
                     (py_slice (thetas self) (n + (n - 1) * (k - 1)) (n + (n - 1) * (k - 1) + (n - 1)))
                     control_qubit)
            else build_rotation_block axis qubits'
                   (py_slice (thetas self) (n + (n - 1) * n) (n + (n - 1) * n + n)))"

text \<open>Running blocks in order, appending each to the program, stopping at the first exception.\<close>

fun run_blocks ::
  "(nat \<Rightarrow> py_error + program) \<Rightarrow> nat list \<Rightarrow> program \<Rightarrow> (py_error + unit) \<times> program" where
  "run_blocks f [] prog = (Inr (), prog)"
| "run_blocks f (k # ks) prog =
    (case f k of Inl e \<Rightarrow> (Inl e, prog) | Inr p \<Rightarrow> run_blocks f ks (prog @ p))"

text \<open>
  The instructions of the \<open>k\<close>-th block in closed form: one instruction per input qubit
  (rotation blocks) or per input qubit other than the control (controlled blocks), each
  with the angle at the same position of the block's slice of \<open>thetas\<close>.
\<close>

definition encode_block :: "qae_circuit \<Rightarrow> nat \<Rightarrow> gate list" where
  "encode_block self k =
    (let n = num_input_qubits self;
         qs = take n (qubits self)
     in if k = 0 then
          map (\<lambda>(q, t). projr (gate_from_axis (axes self ! k) 1) [t] [q])
            (zip qs (take n (thetas self)))
        else if k \<le> n then
          map (\<lambda>(q, t). projr (gate_from_axis (axes self ! k) 2) [t] [qs ! (k - 1), q])
            (zip (filter (\<lambda>q. q \<noteq> qs ! (k - 1)) qs)
               (take (n - 1) (drop (n + (n - 1) * (k - 1)) (thetas self))))
        else
          map (\<lambda>(q, t). projr (gate_from_axis (axes self ! k) 1) [t] [q])
            (zip qs (take n (drop (n + (n - 1) * n) (thetas self)))))"

text \<open>The encode stage in closed form: the blocks \<open>0\<close> to \<open>n + 1\<close> in order.\<close>

definition encode_stage :: "qae_circuit \<Rightarrow> gate list" where
  "encode_stage self = concat (map (encode_block self) [0..<num_input_qubits self + 2])"

text \<open>The number of angles that blocks \<open>0\<close> to \<open>k\<close> consume together.\<close>

definition thetas_end :: "nat \<Rightarrow> nat \<Rightarrow> nat" where
  "thetas_end n k = (if k = 0 then n else if k \<le> n then n + (n - 1) * k else 2 * n + n * (n - 1))"

text \<open>
  What \<open>dagger_and_flip\<close> makes of one instruction when both of its dictionary lookups
  succeed.
\<close>

definition dagger_gate :: "(nat \<rightharpoonup> nat) \<Rightarrow> gate \<Rightarrow> gate" where
  "dagger_gate m g =
    the (gates_dict (gate_name g)) (map uminus (gate_params g))
      (map (\<lambda>q. the (m q)) (gate_qubits g))"

text \<open>
  A valid configuration, after the invariants of the specification: a freshly constructed
  object whose latent qubits are among its qubits, with \<open>2n + n(n-1)\<close> angles, \<open>n + 2\<close>
  axes out of X, Y and Z, and an ordering without duplicates that covers all qubits.
\<close>

definition valid_axis :: "string \<Rightarrow> bool" where
  "valid_axis a = (a = ''X'' \<or> a = ''Y'' \<or> a = ''Z'')"

definition valid_config :: "qae_circuit \<Rightarrow> bool" where
  "valid_config self =
    (num_input_qubits self = (num_qubits self + num_latent_qubits self) div 2
     \<and> num_latent_qubits self \<le> num_qubits self
     \<and> length (thetas self) = 2 * num_input_qubits self
          + num_input_qubits self * (num_input_qubits self - 1)
     \<and> length (axes self) = num_input_qubits self + 2
     \<and> list_all valid_axis (axes self)
     \<and> distinct (qubits self)
     \<and> num_qubits self \<le> length (qubits self)
     \<and> program self = [])"

text \<open>The gate names that the builders can emit.\<close>

definition rotation_name :: "string \<Rightarrow> bool" where
  "rotation_name nm = (nm = ''RX'' \<or> nm = ''RY'' \<or> nm = ''RZ'' \<or> nm = ''CRX'' \<or> nm = ''CRY'')"

section \<open>Auxiliary facts\<close>

subsection \<open>The registry\<close>

lemma py_dict_map_of: "fold (\<lambda>(k, v) m. m(k \<mapsto> v)) kvs m0 = m0 ++ map_of (rev kvs)"
  by (induction kvs arbitrary: m0) (auto simp: map_add_def fun_eq_iff split: option.splits)

lemma py_dict_eq: "py_dict kvs = map_of (rev kvs)"
  by (simp add: py_dict_def py_dict_map_of)

lemma gates_dict_simps:
  "gates_dict ''RX'' = Some RX" "gates_dict ''RY'' = Some RY" "gates_dict ''RZ'' = Some RZ"
  "gates_dict ''CRX'' = Some CRX" "gates_dict ''CRY'' = Some CRY" "gates_dict ''CRZ'' = Some CRZ"
  by (simp_all add: gates_dict_def py_dict_eq)

lemma gates_dict_dom:
  "gates_dict k = Some g \<Longrightarrow> k \<in> {''RX'', ''RY'', ''RZ'', ''CRX'', ''CRY'', ''CRZ''}"
  by (simp add: gates_dict_def py_dict_eq split: if_splits)

lemma gates_dict_None:
  "k \<notin> {''RX'', ''RY'', ''RZ'', ''CRX'', ''CRY'', ''CRZ''} \<Longrightarrow> gates_dict k = None"
  by (simp add: gates_dict_def py_dict_eq)

lemma gate_from_axis_1:
  "gate_from_axis a 1 = (if a = ''X'' then Inr RX else if a = ''Y'' then Inr RY
     else if a = ''Z'' then Inr RZ else Inl KeyError)"
  by (simp add: gate_from_axis_def gates_dict_def py_dict_eq)

lemma gate_from_axis_2:
  "gate_from_axis a 2 = (if a = ''X'' then Inr CRX else if a = ''Y'' then Inr CRY
     else if a = ''Z'' then Inr CRZ else Inl KeyError)"
  by (simp add: gate_from_axis_def gates_dict_def py_dict_eq)

subsection \<open>The loops of the block builders\<close>

lemma rotation_loop_ok:
  "i + length qs \<le> length ths \<Longrightarrow>
   rotation_loop g ths i qs p = Inr (p @ map (\<lambda>(q, t). g [t] [q]) (zip qs (drop i ths)))"
proof (induction qs arbitrary: i p)
  case Nil
  then show ?case by simp
next
  case (Cons q qs)
  then have "i < length ths" by simp
  then have d: "drop i ths = ths ! i # drop (Suc i) ths"
    by (simp add: Cons_nth_drop_Suc)
  from Cons show ?case by (simp add: py_index_def d)
qed

lemma rotation_loop_short:
  "i \<le> length ths \<Longrightarrow> length ths < i + length qs \<Longrightarrow>
   rotation_loop g ths i qs p = Inl IndexError"
  by (induction qs arbitrary: i p) (auto simp: py_index_def)

lemma controlled_loop_ok:
  "i + length (filter (\<lambda>q. q \<noteq> c) qs) \<le> length ths \<Longrightarrow>
   controlled_loop g ths c i qs p =
     Inr (p @ map (\<lambda>(q, t). g [t] [c, q]) (zip (filter (\<lambda>q. q \<noteq> c) qs) (drop i ths)))"
proof (induction qs arbitrary: i p)
  case Nil
  then show ?case by simp
next
  case (Cons q qs)
  show ?case
  proof (cases "q = c")
    case True
    with Cons show ?thesis by simp
  next
    case False
    with Cons.prems have "i < length ths" by simp
    then have d: "drop i ths = ths ! i # drop (Suc i) ths"
      by (simp add: Cons_nth_drop_Suc)
    from False Cons show ?thesis by (simp add: py_index_def d)
  qed
qed

lemma controlled_loop_short:
  "i \<le> length ths \<Longrightarrow> length ths < i + length (filter (\<lambda>q. q \<noteq> c) qs) \<Longrightarrow>
   controlled_loop g ths c i qs p = Inl IndexError"
  by (induction qs arbitrary: i p) (auto simp: py_index_def)

subsection \<open>The position-reversal mapping and the flip loop\<close>

lemma dom_qubits_reversed: "dom (qubits_reversed Q) = set Q"
proof -
  have "map fst (zip Q (rev Q)) = Q" by (rule map_fst_zip) simp
  then have "fst ` set (zip Q (rev Q)) = set Q" by (metis set_map)
  then show ?thesis
    by (simp add: qubits_reversed_def py_dict_eq dom_map_of_conv_image_fst)
qed

lemma qubits_reversed_nth:
  assumes "distinct Q" and "k < length Q"
  shows "qubits_reversed Q (Q ! k) = Some (Q ! (length Q - 1 - k))"
proof -
  let ?n = "length Q"
  have z: "rev (zip Q (rev Q)) = zip (rev Q) Q"
    using zip_rev [of Q "rev Q"] by simp
  have k': "?n - 1 - k < ?n" using assms(2) by simp
  have "map_of (zip (rev Q) Q) (rev Q ! (?n - 1 - k)) = Some (Q ! (?n - 1 - k))"
    using map_of_zip_nth [of "rev Q" Q "?n - 1 - k"] assms(1) k' by simp
  moreover have "rev Q ! (?n - 1 - k) = Q ! k"
    using assms(2) by (simp add: rev_nth)
  ultimately show ?thesis
    by (simp add: qubits_reversed_def py_dict_eq z)
qed

lemma qubits_reversed_in:
  assumes "distinct Q" and "q \<in> set Q"
  shows "\<exists>q'. qubits_reversed Q q = Some q' \<and> q' \<in> set Q \<and> qubits_reversed Q q' = Some q"
proof -
  from assms(2) obtain k where k: "k < length Q" "Q ! k = q"
    by (auto simp: in_set_conv_nth)
  let ?k' = "length Q - 1 - k"
  have k': "?k' < length Q" using k by simp
  have "qubits_reversed Q q = Some (Q ! ?k')"
    using qubits_reversed_nth [OF assms(1) k(1)] k(2) by simp
  moreover have "qubits_reversed Q (Q ! ?k') = Some q"
    using qubits_reversed_nth [OF assms(1) k'] k by simp
  ultimately show ?thesis using k' by auto
qed

lemma lookup_qubits_ok:
  "set qs \<subseteq> dom m \<Longrightarrow> lookup_qubits m qs = Inr (map (\<lambda>q. the (m q)) qs)"
  by (induction qs) auto

lemma lookup_qubits_fail:
  "\<not> set qs \<subseteq> dom m \<Longrightarrow> lookup_qubits m qs = Inl KeyError"
proof (induction qs)
  case Nil
  then show ?case by simp
next
  case (Cons q qs)
  show ?case
  proof (cases "m q")
    case None
    then show ?thesis by simp
  next
    case (Some q')
    with Cons.prems have "\<not> set qs \<subseteq> dom m" by auto
    with Cons.IH Some show ?thesis by simp
  qed
qed

lemma negate_eq: "(\<lambda>x::real. - 1 * x) = uminus"
  by (simp add: fun_eq_iff)

lemma flip_loop_ok:
  "\<forall>g \<in> set gs. set (gate_qubits g) \<subseteq> dom m \<and> gate_name g \<in> dom gates_dict \<Longrightarrow>
   flip_loop m gs fp = Inr (fp @ map (dagger_gate m) gs)"
  by (induction gs arbitrary: fp) (auto simp: lookup_qubits_ok dagger_gate_def negate_eq)

lemma flip_loop_fail:
  "\<exists>g \<in> set gs. \<not> set (gate_qubits g) \<subseteq> dom m \<Longrightarrow> flip_loop m gs fp = Inl KeyError"
proof (induction gs arbitrary: fp)
  case Nil
  then show ?case by simp
next
  case (Cons g gs)
  show ?case
  proof (cases "set (gate_qubits g) \<subseteq> dom m")
    case False
    then show ?thesis by (simp add: lookup_qubits_fail)
  next
    case True
    with Cons.prems have "\<exists>g \<in> set gs. \<not> set (gate_qubits g) \<subseteq> dom m" by auto
    then show ?thesis using True Cons.IH
      by (simp add: lookup_qubits_ok split: option.splits)
  qed
qed

subsection \<open>The encode stage as a run of blocks\<close>

lemma run_blocks_append:
  "run_blocks f (ks @ ks') prog =
    (case run_blocks f ks prog of
       (Inl e, prog') \<Rightarrow> (Inl e, prog')
     | (Inr u, prog') \<Rightarrow> run_blocks f ks' prog')"
  by (induction ks arbitrary: prog) (auto split: sum.splits)

lemma run_blocks_map: "run_blocks f (map h ks) prog = run_blocks (\<lambda>k. f (h k)) ks prog"
  by (induction ks arbitrary: prog) (auto split: sum.splits)

lemma run_blocks_cong:
  "(\<And>k. k \<in> set ks \<Longrightarrow> f k = g k) \<Longrightarrow> run_blocks f ks prog = run_blocks g ks prog"
  by (induction ks arbitrary: prog) (auto split: sum.splits)

lemma run_blocks_ok:
  "(\<And>k. k \<in> set ks \<Longrightarrow> f k = Inr (b k)) \<Longrightarrow>
   run_blocks f ks prog = (Inr (), prog @ concat (map b ks))"
  by (induction ks arbitrary: prog) auto

lemma run_blocks_fail:
  "(\<And>k. k \<in> set ks \<Longrightarrow> f k = Inr (b k)) \<Longrightarrow> f j = Inl e \<Longrightarrow>
   run_blocks f (ks @ j # ks') prog = (Inl e, prog @ concat (map b ks))"
  by (simp add: run_blocks_append run_blocks_ok)

lemma block_result_program [simp]:
  "block_result (self\<lparr>program := p\<rparr>) k = block_result self k"
  by (simp add: block_result_def Let_def cong: sum.case_cong if_cong)

lemma block_result_0:
  "block_result self 0 =
    (case py_index (axes self) 0 of
       Inl e \<Rightarrow> Inl e
     | Inr axis \<Rightarrow>
         build_rotation_block axis (py_slice (qubits self) 0 (num_input_qubits self))
           (py_slice (thetas self) 0 (num_input_qubits self)))"
  by (simp add: block_result_def Let_def cong: sum.case_cong)

lemma block_result_ctl:
  "i < num_input_qubits self \<Longrightarrow>
   block_result self (Suc i) =
    (case py_index (axes self) (Suc i) of
       Inl e \<Rightarrow> Inl e
     | Inr axis \<Rightarrow>
        (case py_index (py_slice (qubits self) 0 (num_input_qubits self)) i of
           Inl e \<Rightarrow> Inl e
         | Inr control_qubit \<Rightarrow>
             build_controlled_rotation_block axis
               (py_slice (qubits self) 0 (num_input_qubits self))
               (py_slice (thetas self)
                  (num_input_qubits self + (num_input_qubits self - 1) * i)
                  (num_input_qubits self + (num_input_qubits self - 1) * i
                     + (num_input_qubits self - 1)))
               control_qubit))"
  by (simp add: block_result_def Let_def cong: sum.case_cong)

lemma block_result_last:
  "block_result self (Suc (num_input_qubits self)) =
    (case py_index (axes self) (Suc (num_input_qubits self)) of
       Inl e \<Rightarrow> Inl e
     | Inr axis \<Rightarrow>
         build_rotation_block axis (py_slice (qubits self) 0 (num_input_qubits self))
           (py_slice (thetas self)
              (num_input_qubits self + (num_input_qubits self - 1) * num_input_qubits self)
              (num_input_qubits self + (num_input_qubits self - 1) * num_input_qubits self
                 + num_input_qubits self)))"
  by (simp add: block_result_def Let_def cong: sum.case_cong)

lemma controlled_blocks_run:
  "\<forall>i \<in> set is. i < num_input_qubits self \<Longrightarrow>
   controlled_blocks (py_slice (qubits self) 0 (num_input_qubits self)) is self =
     (case run_blocks (\<lambda>i. block_result self (Suc i)) is (program self) of
        (r, prog) \<Rightarrow> (r, self\<lparr>program := prog\<rparr>))"
proof (induction "is" arbitrary: self)
  case Nil
  then show ?case by simp
next
  case (Cons i "is")
  let ?qs = "py_slice (qubits self) 0 (num_input_qubits self)"
  have ih: "controlled_blocks ?qs is (self\<lparr>program := program self @ p\<rparr>) =
     (case run_blocks (\<lambda>i. block_result self (Suc i)) is (program self @ p) of
        (r, prog) \<Rightarrow> (r, self\<lparr>program := prog\<rparr>))" for p
    using Cons.IH [of "self\<lparr>program := program self @ p\<rparr>"] Cons.prems by simp
  from Cons.prems have i: "i < num_input_qubits self" by simp
  show ?case
    by (simp add: block_result_ctl [OF i] Let_def ih split: sum.splits)
qed

lemma upt_blocks: "[0..<n + 2] = 0 # map Suc [0..<n] @ [Suc n]"
proof -
  have "[0..<n + 2] = [0..<Suc n] @ [Suc n]" by simp
  also have "[0..<Suc n] = 0 # map Suc [0..<n]"
    by (simp add: upt_conv_Cons map_Suc_upt del: upt_Suc)
  finally show ?thesis by simp
qed

lemma build_encode_run:
  "build_encode self =
     (case run_blocks (block_result self) [0..<num_input_qubits self + 2] (program self) of
        (r, prog) \<Rightarrow> (r, self\<lparr>program := prog\<rparr>))"
proof -
  let ?n = "num_input_qubits self"
  let ?qs = "py_slice (qubits self) 0 ?n"
  have cb: "controlled_blocks ?qs [0..<?n] (self\<lparr>program := program self @ p\<rparr>) =
     (case run_blocks (\<lambda>i. block_result self (Suc i)) [0..<?n] (program self @ p) of
        (r, prog) \<Rightarrow> (r, self\<lparr>program := prog\<rparr>))" for p
    using controlled_blocks_run [of "[0..<?n]" "self\<lparr>program := program self @ p\<rparr>"]
    by simp
  show ?thesis
    unfolding upt_blocks
    by (simp add: build_encode_def def_gates_program_def Let_def cb block_result_0
        block_result_last run_blocks_append run_blocks_map split: sum.splits prod.splits)
qed

subsection \<open>Dagger and flip of rotation instructions\<close>

lemma gates_dict_rotation:
  "rotation_name nm \<Longrightarrow> gates_dict nm = Some (\<lambda>ps qs. Gate nm ps qs)"
  by (auto simp: rotation_name_def gates_dict_simps RX_def RY_def RZ_def CRX_def CRY_def
      get_constructor_def crx_def_def cry_def_def)

lemma dagger_gate_rotation:
  "rotation_name (gate_name g) \<Longrightarrow>
   dagger_gate m g = Gate (gate_name g) (map uminus (gate_params g))
                       (map (\<lambda>q. the (m q)) (gate_qubits g))"
  by (simp add: dagger_gate_def gates_dict_rotation)

lemma dagger_and_flip_ok:
  assumes "\<forall>g \<in> set prog. rotation_name (gate_name g) \<and> set (gate_qubits g) \<subseteq> set qs"
  shows "dagger_and_flip prog qs = Inr (map (dagger_gate (qubits_reversed qs)) (rev prog))"
proof -
  have "\<forall>g \<in> set (rev prog). set (gate_qubits g) \<subseteq> dom (qubits_reversed qs)
          \<and> gate_name g \<in> dom gates_dict"
    using assms by (auto simp: dom_qubits_reversed gates_dict_rotation)
  from flip_loop_ok [OF this, of "[]"] show ?thesis
    by (simp add: dagger_and_flip_def)
qed

lemma dagger_gate_twice:
  assumes "distinct qs" and "rotation_name (gate_name g)" and "set (gate_qubits g) \<subseteq> set qs"
  shows "dagger_gate (qubits_reversed qs) (dagger_gate (qubits_reversed qs) g) = g"
proof -
  let ?m = "qubits_reversed qs"
  have "the (?m (the (?m q))) = q" if "q \<in> set qs" for q
    using qubits_reversed_in [OF assms(1) that] by auto
  then have "map (\<lambda>q. the (?m q)) (map (\<lambda>q. the (?m q)) (gate_qubits g)) = gate_qubits g"
    using assms(3) by (auto simp: map_idI subsetD)
  moreover have "map uminus (map uminus (gate_params g)) = gate_params g"
    by (simp add: map_idI)
  ultimately show ?thesis
    using assms(2) by (simp add: dagger_gate_rotation del: map_map)
qed

lemma dagger_gate_closed:
  assumes "distinct qs" and "rotation_name (gate_name g)" and "set (gate_qubits g) \<subseteq> set qs"
  shows "rotation_name (gate_name (dagger_gate (qubits_reversed qs) g))
         \<and> set (gate_qubits (dagger_gate (qubits_reversed qs) g)) \<subseteq> set qs"
proof -
  have "the (qubits_reversed qs q) \<in> set qs" if "q \<in> set qs" for q
    using qubits_reversed_in [OF assms(1) that] by auto
  then show ?thesis
    using assms(2,3) by (auto simp: dagger_gate_rotation)
qed

subsection \<open>The outcome of each block\<close>

lemma length_filter_other:
  "distinct xs \<Longrightarrow> x \<in> set xs \<Longrightarrow> length (filter (\<lambda>q. q \<noteq> x) xs) = length xs - 1"
proof (induction xs)
  case Nil
  then show ?case by simp
next
  case (Cons a xs)
  show ?case
  proof (cases "a = x")
    case True
    with Cons.prems have "x \<notin> set xs" by simp
    then have "filter (\<lambda>q. q \<noteq> x) xs = xs" by (auto intro: filter_True)
    with True show ?thesis by simp
  next
    case False
    with Cons have "length (filter (\<lambda>q. q \<noteq> x) xs) = length xs - 1" "xs \<noteq> []" by auto
    with False show ?thesis by (cases xs) auto
  qed
qed

lemma gate_from_axis_valid:
  "valid_axis a \<Longrightarrow>
   \<exists>nm. rotation_name nm \<and> gate_from_axis a 1 = Inr (\<lambda>ps qs. Gate nm ps qs)"
  "valid_axis a \<Longrightarrow>
   \<exists>nm. rotation_name nm \<and> gate_from_axis a 2 = Inr (\<lambda>ps qs. Gate nm ps qs)"
  by (auto simp: valid_axis_def rotation_name_def gate_from_axis_1 gate_from_axis_2 RX_def RY_def
      RZ_def CRX_def CRY_def CRZ_def get_constructor_def crx_def_def cry_def_def
      simp del: One_nat_def)

lemma gate_from_axis_invalid:
  "\<not> valid_axis a \<Longrightarrow> gate_from_axis a 1 = Inl KeyError"
  "\<not> valid_axis a \<Longrightarrow> gate_from_axis a 2 = Inl KeyError"
  by (simp_all add: valid_axis_def gate_from_axis_1 gate_from_axis_2 del: One_nat_def)

lemma build_rotation_block_cases:
  assumes "gate_from_axis a 1 = Inr g"
  shows "build_rotation_block a qs ths =
    (if length qs \<le> length ths then Inr (map (\<lambda>(q, t). g [t] [q]) (zip qs ths))
     else Inl IndexError)"
  using assms rotation_loop_ok [of 0 qs ths g "[]"] rotation_loop_short [of 0 ths qs g "[]"]
  by (simp add: build_rotation_block_def del: One_nat_def)

lemma build_controlled_rotation_block_cases:
  assumes "gate_from_axis a 2 = Inr g"
  shows "build_controlled_rotation_block a qs ths c =
    (if length (filter (\<lambda>q. q \<noteq> c) qs) \<le> length ths
     then Inr (map (\<lambda>(q, t). g [t] [c, q]) (zip (filter (\<lambda>q. q \<noteq> c) qs) ths))
     else Inl IndexError)"
  using assms controlled_loop_ok [of 0 c qs ths g "[]"] controlled_loop_short [of 0 ths c qs g "[]"]
  by (simp add: build_controlled_rotation_block_def)

lemma block_result_rotation:
  assumes n: "num_input_qubits c \<le> length (qubits c)"
    and k: "k < length (axes c)" "k = 0 \<or> num_input_qubits c < k"
    and a: "valid_axis (axes c ! k)"
  shows "block_result c k =
    (if num_input_qubits c \<le> length (thetas c)
          - (if k = 0 then 0 else num_input_qubits c + (num_input_qubits c - 1) * num_input_qubits c)
     then Inr (encode_block c k) else Inl IndexError)"
proof -
  let ?n = "num_input_qubits c"
  let ?s = "if k = 0 then 0 else ?n + (?n - 1) * ?n"
  let ?qs = "take ?n (qubits c)"
  let ?ths = "take ?n (drop ?s (thetas c))"
  obtain g where g: "gate_from_axis (axes c ! k) 1 = Inr g"
    using gate_from_axis_valid(1) [OF a] by auto
  have lqs: "length ?qs = ?n" using n by simp
  have br: "block_result c k = build_rotation_block (axes c ! k) ?qs ?ths"
    using k by (auto simp: block_result_def Let_def py_index_def py_slice_def)
  have eb: "encode_block c k = map (\<lambda>(q, t). g [t] [q]) (zip ?qs ?ths)"
    using k g by (auto simp: encode_block_def Let_def)
  have "length ?qs \<le> length ?ths \<longleftrightarrow> ?n \<le> length (thetas c) - ?s"
    using lqs by (simp add: min_def)
  then show ?thesis
    unfolding br eb build_rotation_block_cases [OF g] by simp
qed

lemma block_result_controlled:
  assumes n: "num_input_qubits c \<le> length (qubits c)"
    and d: "distinct (qubits c)"
    and k: "k < length (axes c)" "0 < k" "k \<le> num_input_qubits c"
    and a: "valid_axis (axes c ! k)"
  shows "block_result c k =
    (if num_input_qubits c - 1 \<le> length (thetas c)
          - (num_input_qubits c + (num_input_qubits c - 1) * (k - 1))
     then Inr (encode_block c k) else Inl IndexError)"
proof -
  let ?n = "num_input_qubits c"
  let ?s = "?n + (?n - 1) * (k - 1)"
  let ?qs = "take ?n (qubits c)"
  let ?ths = "take (?n - 1) (drop ?s (thetas c))"
  let ?cq = "?qs ! (k - 1)"
  obtain g where g: "gate_from_axis (axes c ! k) 2 = Inr g"
    using gate_from_axis_valid(2) [OF a] by auto
  have lqs: "length ?qs = ?n" using n by simp
  have dqs: "distinct ?qs" using d by simp
  have i: "k - 1 < length ?qs" using lqs k by simp
  then have "?cq \<in> set ?qs" by (rule nth_mem)
  then have lf: "length (filter (\<lambda>q. q \<noteq> ?cq) ?qs) = ?n - 1"
    using length_filter_other [OF dqs] lqs by simp
  have pi: "py_index (py_slice (qubits c) 0 ?n) (k - 1) = Inr ?cq"
    using i by (simp add: py_index_def py_slice_def)
  have ps: "py_slice (thetas c) ?s (?s + (?n - 1)) = ?ths"
    by (simp add: py_slice_def)
  have br: "block_result c k = build_controlled_rotation_block (axes c ! k) ?qs ?ths ?cq"
    using k pi ps by (simp add: block_result_def Let_def py_index_def) (simp add: py_slice_def)
  have eb: "encode_block c k =
      map (\<lambda>(q, t). g [t] [?cq, q]) (zip (filter (\<lambda>q. q \<noteq> ?cq) ?qs) ?ths)"
    using k g by (simp add: encode_block_def Let_def)
  have "length (filter (\<lambda>q. q \<noteq> ?cq) ?qs) \<le> length ?ths
          \<longleftrightarrow> ?n - 1 \<le> length (thetas c) - ?s"
    using lf by (simp add: min_def)
  then show ?thesis
    unfolding br eb build_controlled_rotation_block_cases [OF g] by simp
qed

lemma thetas_end_mono:
  "k \<le> n + 1 \<Longrightarrow> thetas_end n k \<le> 2 * n + n * (n - 1)"
proof -
  have "n + (n - 1) * k \<le> 2 * n + n * (n - 1)" if "k \<le> n"
  proof -
    have "(n - 1) * k \<le> (n - 1) * n" using that by (rule mult_le_mono2)
    also have "\<dots> = n * (n - 1)" by (rule mult.commute)
    finally show ?thesis by linarith
  qed
  then show ?thesis by (simp add: thetas_end_def)
qed

lemma block_result_ok:
  assumes n: "num_input_qubits c \<le> length (qubits c)"
    and d: "distinct (qubits c)"
    and k: "k < length (axes c)" "k \<le> num_input_qubits c + 1"
    and a: "valid_axis (axes c ! k)"
    and t: "thetas_end (num_input_qubits c) k \<le> length (thetas c)"
  shows "block_result c k = Inr (encode_block c k)"
proof -
  let ?n = "num_input_qubits c"
  consider "k = 0" | "0 < k" "k \<le> ?n" | "k = ?n + 1" using k(2) by linarith
  then show ?thesis
  proof cases
    case 1
    then show ?thesis
      using block_result_rotation [OF n k(1) _ a] t by (simp add: thetas_end_def)
  next
    case 2
    then obtain k' where k': "k = Suc k'" by (cases k) auto
    have "?n - 1 \<le> length (thetas c) - (?n + (?n - 1) * (k - 1))"
      using t 2 by (simp add: thetas_end_def k')
    then show ?thesis
      using block_result_controlled [OF n d k(1) 2 a] by simp
  next
    case 3
    then have "?n \<le> length (thetas c) - (?n + (?n - 1) * ?n)"
      using t by (simp add: thetas_end_def mult.commute)
    then show ?thesis
      using block_result_rotation [OF n k(1) _ a] 3 by simp
  qed
qed

lemma block_result_error:
  assumes n: "num_input_qubits c \<le> length (qubits c)"
    and d: "distinct (qubits c)"
    and k: "k < length (axes c)" "k \<le> num_input_qubits c + 1"
    and a: "valid_axis (axes c ! k)"
  shows "block_result c k = Inr (encode_block c k) \<or> block_result c k = Inl IndexError"
proof -
  consider "k = 0 \<or> num_input_qubits c < k" | "0 < k" "k \<le> num_input_qubits c" by linarith
  then show ?thesis
  proof cases
    case 1
    then show ?thesis using block_result_rotation [OF n k(1) _ a] by (simp split: if_splits)
  next
    case 2
    then show ?thesis using block_result_controlled [OF n d k(1) _ _ a] by (simp split: if_splits)
  qed
qed

lemma block_result_last_short:
  assumes n: "num_input_qubits c \<le> length (qubits c)"
    and k: "num_input_qubits c + 1 < length (axes c)"
    and a: "valid_axis (axes c ! (num_input_qubits c + 1))"
    and t: "length (thetas c) < 2 * num_input_qubits c + num_input_qubits c * (num_input_qubits c - 1)"
  shows "block_result c (num_input_qubits c + 1) = Inl IndexError"
proof -
  have "\<not> num_input_qubits c \<le> length (thetas c)
          - (num_input_qubits c + (num_input_qubits c - 1) * num_input_qubits c)"
    using t by (simp add: mult.commute)
  then show ?thesis
    using block_result_rotation [OF n k _ a] by simp
qed

lemma block_result_invalid_axis:
  assumes n: "num_input_qubits c \<le> length (qubits c)"
    and k: "k < length (axes c)" "k \<le> num_input_qubits c + 1"
    and a: "\<not> valid_axis (axes c ! k)"
  shows "block_result c k = Inl KeyError"
proof -
  have "k - 1 < length (take (num_input_qubits c) (qubits c))" if "0 < k" "k \<le> num_input_qubits c"
    using that n by simp
  then show ?thesis
    using k gate_from_axis_invalid [OF a]
    by (auto simp: block_result_def Let_def py_index_def py_slice_def build_rotation_block_def
        build_controlled_rotation_block_def simp del: One_nat_def)
qed

lemma length_encode_block:
  assumes n: "num_input_qubits c \<le> length (qubits c)"
    and d: "distinct (qubits c)"
    and k: "k \<le> num_input_qubits c + 1"
    and t: "thetas_end (num_input_qubits c) k \<le> length (thetas c)"
  shows "length (encode_block c k) =
    (if 0 < k \<and> k \<le> num_input_qubits c then num_input_qubits c - 1 else num_input_qubits c)"
proof -
  let ?n = "num_input_qubits c"
  let ?qs = "take ?n (qubits c)"
  have lqs: "length ?qs = ?n" using n by simp
  have dqs: "distinct ?qs" using d by simp
  consider "k = 0" | "0 < k" "k \<le> ?n" | "k = ?n + 1" using k by linarith
  then show ?thesis
  proof cases
    case 1
    then show ?thesis using t lqs by (simp add: encode_block_def Let_def thetas_end_def)
  next
    case 2
    then obtain k' where k': "k = Suc k'" by (cases k) auto
    have i: "k - 1 < length ?qs" using lqs 2 by simp
    then have "?qs ! (k - 1) \<in> set ?qs" by (rule nth_mem)
    then have lf: "length (filter (\<lambda>q. q \<noteq> ?qs ! (k - 1)) ?qs) = ?n - 1"
      using length_filter_other [OF dqs] lqs by simp
    have "?n - 1 \<le> length (thetas c) - (?n + (?n - 1) * (k - 1))"
      using t 2 by (simp add: thetas_end_def k')
    then show ?thesis using 2 lf by (simp add: encode_block_def Let_def)
  next
    case 3
    then have "?n \<le> length (thetas c) - (?n + (?n - 1) * ?n)"
      using t by (simp add: thetas_end_def mult.commute)
    then show ?thesis using 3 lqs by (simp add: encode_block_def Let_def)
  qed
qed

lemma encode_block_gates:
  assumes n: "num_input_qubits c \<le> length (qubits c)"
    and k: "k \<le> num_input_qubits c + 1"
    and a: "valid_axis (axes c ! k)"
    and g: "g \<in> set (encode_block c k)"
  shows "rotation_name (gate_name g) \<and> set (gate_qubits g) \<subseteq> set (qubits c)"
proof -
  let ?n = "num_input_qubits c"
  let ?qs = "take ?n (qubits c)"
  obtain nm1 where g1: "rotation_name nm1" "gate_from_axis (axes c ! k) 1 = Inr (\<lambda>ps qs. Gate nm1 ps qs)"
    using gate_from_axis_valid(1) [OF a] by auto
  obtain nm2 where g2: "rotation_name nm2" "gate_from_axis (axes c ! k) 2 = Inr (\<lambda>ps qs. Gate nm2 ps qs)"
    using gate_from_axis_valid(2) [OF a] by auto
  have sub: "set ?qs \<subseteq> set (qubits c)" by (rule set_take_subset)
  have ctl: "?qs ! (k - 1) \<in> set (qubits c)" if "0 < k" "k \<le> ?n"
  proof -
    have "k - 1 < length ?qs" using that n by simp
    then have "?qs ! (k - 1) \<in> set ?qs" by (rule nth_mem)
    with sub show ?thesis by auto
  qed
  consider "k = 0 \<or> ?n < k" | "0 < k" "k \<le> ?n" by linarith
  then show ?thesis
  proof cases
    case 1
    with g have "g \<in> set (map (\<lambda>(q, t). Gate nm1 [t] [q])
        (zip ?qs (take ?n (drop (if k = 0 then 0 else ?n + (?n - 1) * ?n) (thetas c)))))"
      using g1(2) by (auto simp: encode_block_def Let_def)
    then show ?thesis using g1(1) sub by (auto dest!: set_zip_leftD)
  next
    case 2
    with g have "g \<in> set (map (\<lambda>(q, t). Gate nm2 [t] [?qs ! (k - 1), q])
        (zip (filter (\<lambda>q. q \<noteq> ?qs ! (k - 1)) ?qs)
           (take (?n - 1) (drop (?n + (?n - 1) * (k - 1)) (thetas c)))))"
      using g2(2) by (simp add: encode_block_def Let_def)
    then show ?thesis using g2(1) sub ctl [OF 2] by (auto dest!: set_zip_leftD)
  qed
qed

lemma encode_block_program [simp]: "encode_block (c\<lparr>program := p\<rparr>) = encode_block c"
  by (rule ext) (simp add: encode_block_def Let_def)

lemma encode_stage_program [simp]: "encode_stage (c\<lparr>program := p\<rparr>) = encode_stage c"
  by (simp add: encode_stage_def)

subsection \<open>The outcome of the whole build\<close>

lemma length_blocks_prefix:
  assumes n: "num_input_qubits c \<le> length (qubits c)"
    and d: "distinct (qubits c)"
    and t: "\<forall>k<j. thetas_end (num_input_qubits c) k \<le> length (thetas c)"
    and j: "j \<le> num_input_qubits c + 1"
  shows "length (concat (map (encode_block c) [0..<j])) =
    (if j = 0 then 0 else num_input_qubits c + (j - 1) * (num_input_qubits c - 1))"
  using t j
proof (induction j)
  case 0
  then show ?case by simp
next
  case (Suc j)
  let ?n = "num_input_qubits c"
  have lb: "length (encode_block c j) = (if 0 < j \<and> j \<le> ?n then ?n - 1 else ?n)"
    using length_encode_block [OF n d, of j] Suc.prems by simp
  have ih: "length (concat (map (encode_block c) [0..<j])) =
    (if j = 0 then 0 else ?n + (j - 1) * (?n - 1))"
    using Suc by simp
  show ?case
  proof (cases j)
    case 0
    with lb ih show ?thesis by simp
  next
    case (Suc j')
    with lb ih Suc.prems(2) show ?thesis by simp
  qed
qed

lemma length_encode_stage:
  assumes n: "num_input_qubits c \<le> length (qubits c)"
    and d: "distinct (qubits c)"
    and t: "2 * num_input_qubits c + num_input_qubits c * (num_input_qubits c - 1) \<le> length (thetas c)"
  shows "length (encode_stage c) =
    2 * num_input_qubits c + num_input_qubits c * (num_input_qubits c - 1)"
proof -
  let ?n = "num_input_qubits c"
  have te: "thetas_end ?n k \<le> length (thetas c)" if "k \<le> ?n + 1" for k
    using thetas_end_mono [OF that] t by simp
  have 1: "length (concat (map (encode_block c) [0..<?n + 1])) = ?n + ?n * (?n - 1)"
    using length_blocks_prefix [OF n d, of "?n + 1"] te by simp
  have 2: "length (encode_block c (?n + 1)) = ?n"
    using length_encode_block [OF n d, of "?n + 1"] te by simp
  have "[0..<?n + 2] = [0..<?n + 1] @ [?n + 1]" by simp
  then have "encode_stage c = concat (map (encode_block c) [0..<?n + 1]) @ encode_block c (?n + 1)"
    unfolding encode_stage_def by (simp del: upt_Suc)
  with 1 2 show ?thesis by simp
qed

lemma build_encode_ok:
  assumes n: "num_input_qubits c \<le> length (qubits c)"
    and d: "distinct (qubits c)"
    and a: "length (axes c) = num_input_qubits c + 2" "list_all valid_axis (axes c)"
    and t: "2 * num_input_qubits c + num_input_qubits c * (num_input_qubits c - 1) \<le> length (thetas c)"
  shows "build_encode c = (Inr (), c\<lparr>program := program c @ encode_stage c\<rparr>)"
proof -
  let ?n = "num_input_qubits c"
  have "block_result c k = Inr (encode_block c k)" if "k \<in> set [0..<?n + 2]" for k
  proof -
    from that have k: "k < length (axes c)" "k \<le> ?n + 1" using a(1) by auto
    have "valid_axis (axes c ! k)" using a(2) k(1) by (simp add: list_all_length)
    moreover have "thetas_end ?n k \<le> length (thetas c)"
      using thetas_end_mono [OF k(2)] t by simp
    ultimately show ?thesis using block_result_ok [OF n d k] by simp
  qed
  then have "run_blocks (block_result c) [0..<?n + 2] (program c) =
      (Inr (), program c @ concat (map (encode_block c) [0..<?n + 2]))"
    by (rule run_blocks_ok)
  then show ?thesis by (simp add: build_encode_run encode_stage_def)
qed

lemma encode_stage_gates:
  assumes n: "num_input_qubits c \<le> length (qubits c)"
    and a: "length (axes c) = num_input_qubits c + 2" "list_all valid_axis (axes c)"
    and g: "g \<in> set (encode_stage c)"
  shows "rotation_name (gate_name g) \<and> set (gate_qubits g) \<subseteq> set (qubits c)"
proof -
  from g obtain k where k: "k < num_input_qubits c + 2" "g \<in> set (encode_block c k)"
    unfolding encode_stage_def set_concat set_map set_upt by auto
  then have "valid_axis (axes c ! k)" using a by (simp add: list_all_length)
  with k show ?thesis using encode_block_gates [OF n, of k g] by simp
qed

lemma build_circuit_ok:
  assumes n: "num_input_qubits c \<le> length (qubits c)"
    and d: "distinct (qubits c)"
    and a: "length (axes c) = num_input_qubits c + 2" "list_all valid_axis (axes c)"
    and t: "2 * num_input_qubits c + num_input_qubits c * (num_input_qubits c - 1) \<le> length (thetas c)"
    and p: "\<forall>g \<in> set (program c). rotation_name (gate_name g) \<and> set (gate_qubits g) \<subseteq> set (qubits c)"
  shows "build_circuit c =
    (Inr ((program c @ encode_stage c)
            @ map (dagger_gate (qubits_reversed (qubits c))) (rev (program c @ encode_stage c))),
     c\<lparr>program := program c @ encode_stage c\<rparr>)"
proof -
  have "\<forall>g \<in> set (program c @ encode_stage c).
      rotation_name (gate_name g) \<and> set (gate_qubits g) \<subseteq> set (qubits c)"
    using p encode_stage_gates [OF n a] by auto
  then have "dagger_and_flip (program c @ encode_stage c) (qubits c) =
      Inr (map (dagger_gate (qubits_reversed (qubits c))) (rev (program c @ encode_stage c)))"
    by (rule dagger_and_flip_ok)
  then show ?thesis
    by (simp add: build_circuit_def build_encode_ok [OF n d a t])
qed

lemma valid_config_shape:
  assumes "valid_config c"
  shows "num_input_qubits c \<le> length (qubits c)" "distinct (qubits c)"
    "length (axes c) = num_input_qubits c + 2" "list_all valid_axis (axes c)"
    "2 * num_input_qubits c + num_input_qubits c * (num_input_qubits c - 1) \<le> length (thetas c)"
    "program c = []"
  using assms by (auto simp: valid_config_def)

lemmas eval_defs = build_circuit_def build_encode_def def_gates_program_def py_slice_def
  py_index_def build_rotation_block_def build_controlled_rotation_block_def gate_from_axis_1
  gate_from_axis_2 dagger_and_flip_def qubits_reversed_def py_dict_def gates_dict_simps
  RX_def RY_def RZ_def CRX_def CRY_def CRZ_def get_constructor_def crx_def_def cry_def_def
  init_def Let_def upt_conv_Cons

lemma build_circuit_valid:
  assumes "valid_config c"
  shows "build_circuit c =
    (Inr (encode_stage c @ map (dagger_gate (qubits_reversed (qubits c))) (rev (encode_stage c))),
     c\<lparr>program := encode_stage c\<rparr>)"
  using build_circuit_ok [of c] valid_config_shape [OF assms] by simp

lemmas eval_more = gate_from_axis_1 [unfolded One_nat_def]

lemma rep4: "replicate 4 x = [x, x, x, x]" "replicate 3 x = [x, x, x]"
  by (simp_all add: numeral_eq_Suc)

lemma upt_split: "j < m \<Longrightarrow> [0..<m] = [0..<j] @ j # [Suc j..<m]"
proof -
  assume j: "j < m"
  then have "[0..<m] = [0..<j] @ [j..<m]" using upt_add_eq_append [of 0 j "m - j"] by simp
  also have "[j..<m] = j # [Suc j..<m]" using j by (rule upt_conv_Cons)
  finally show ?thesis .
qed

lemma build_encode_fail:
  assumes j: "j < num_input_qubits c + 2"
    and ok: "\<And>k. k < j \<Longrightarrow> block_result c k = Inr (encode_block c k)"
    and bad: "block_result c j = Inl e"
  shows "build_encode c = (Inl e, c\<lparr>program := program c @ concat (map (encode_block c) [0..<j])\<rparr>)"
proof -
  have "run_blocks (block_result c) ([0..<j] @ j # [Suc j..<num_input_qubits c + 2]) (program c)
      = (Inl e, program c @ concat (map (encode_block c) [0..<j]))"
    using ok bad by (intro run_blocks_fail) auto
  then show ?thesis
    using upt_split [OF j] by (simp add: build_encode_run del: upt_Suc)
qed

lemma build_circuit_fail:
  assumes j: "j < num_input_qubits c + 2"
    and ok: "\<And>k. k < j \<Longrightarrow> block_result c k = Inr (encode_block c k)"
    and bad: "block_result c j = Inl e"
  shows "build_circuit c = (Inl e, c\<lparr>program := program c @ concat (map (encode_block c) [0..<j])\<rparr>)"
  using build_encode_fail [OF assms] by (simp add: build_circuit_def)

lemma rep2: "replicate 2 x = [x, x]"
  by (simp add: numeral_2_eq_2)

lemma dagger_and_flip_twice_rotation:
  assumes "distinct qs"
    and "\<forall>g \<in> set prog. rotation_name (gate_name g) \<and> set (gate_qubits g) \<subseteq> set qs"
  shows "\<exists>prog'. dagger_and_flip prog qs = Inr prog' \<and> dagger_and_flip prog' qs = Inr prog"
proof -
  let ?d = "dagger_gate (qubits_reversed qs)"
  let ?prog' = "map ?d (rev prog)"
  have 1: "dagger_and_flip prog qs = Inr ?prog'"
    using assms(2) by (rule dagger_and_flip_ok)
  have "\<forall>g \<in> set ?prog'. rotation_name (gate_name g) \<and> set (gate_qubits g) \<subseteq> set qs"
    using assms dagger_gate_closed by auto
  then have "dagger_and_flip ?prog' qs = Inr (map ?d (rev ?prog'))"
    by (rule dagger_and_flip_ok)
  also have "map ?d (rev ?prog') = map (\<lambda>g. ?d (?d g)) prog"
    by (simp add: rev_map)
  also have "\<dots> = prog"
    using assms dagger_gate_twice by (auto intro: map_idI)
  finally show ?thesis using 1 by blast
qed

section \<open>Properties of the builders\<close>

text \<open>
  C4. For an axis X, Y or Z, a control qubit that occurs in the qubit list and one angle
  less than qubits, \<open>build_controlled_rotation_block\<close> walks through the qubit list in
  order and, for each qubit other than the control, takes the next angle and emits one
  controlled rotation (named CRX or CRY; CR followed by the axis for X and Y) on
  (control, qubit): one instruction per qubit other than the control, in the order of
  the qubit list.
\<close>

theorem controlled_block_one_per_other_qubit:
  assumes "valid_axis axis" and "qubit_control \<in> set qs" and "length ths = length qs - 1"
  shows "\<exists>nm. (nm = ''CRX'' \<or> nm = ''CRY'')
         \<and> (axis \<noteq> ''Z'' \<longrightarrow> nm = ''CR'' @ axis)
         \<and> build_controlled_rotation_block axis qs ths qubit_control =
             Inr (map (\<lambda>(q, t). Gate nm [t] [qubit_control, q])
                    (zip (filter (\<lambda>q. q \<noteq> qubit_control) qs) ths))
         \<and> length (zip (filter (\<lambda>q. q \<noteq> qubit_control) qs) ths)
             = length (filter (\<lambda>q. q \<noteq> qubit_control) qs)"
proof -
  have "length (filter (\<lambda>q. q \<noteq> qubit_control) qs) < length qs"
    using assms(2) by (simp add: length_filter_less)
  then have le: "0 + length (filter (\<lambda>q. q \<noteq> qubit_control) qs) \<le> length ths"
    using assms(3) by simp
  obtain g nm where g: "gate_from_axis axis 2 = Inr g" "g = (\<lambda>ps qs. Gate nm ps qs)"
    and nm: "nm = ''CRX'' \<or> nm = ''CRY''" "axis \<noteq> ''Z'' \<longrightarrow> nm = ''CR'' @ axis"
    using assms(1)
    by (auto simp: valid_axis_def gate_from_axis_2 CRX_def CRY_def CRZ_def get_constructor_def
        crx_def_def cry_def_def)
  have "build_controlled_rotation_block axis qs ths qubit_control =
      Inr (map (\<lambda>(q, t). Gate nm [t] [qubit_control, q])
             (zip (filter (\<lambda>q. q \<noteq> qubit_control) qs) ths))"
    using controlled_loop_ok [OF le, where g = g and p = "[]"] g
    by (simp add: build_controlled_rotation_block_def)
  with le nm show ?thesis by auto
qed

theorem controlled_block_one_per_other_qubit_witness:
  "valid_axis ''Y'' \<and> (1::nat) \<in> set [0, 1, 2] \<and> length [3, 4 :: real] = length [0, 1, 2 :: nat] - 1
   \<and> ''Y'' \<noteq> ''Z''
   \<and> build_controlled_rotation_block ''Y'' [0, 1, 2] [3, 4] 1
        = Inr [Gate ''CRY'' [3] [1, 0], Gate ''CRY'' [4] [1, 2]]"
proof -
  have h: "valid_axis ''Y''" "(1::nat) \<in> set [0, 1, 2]"
    "length [3, 4 :: real] = length [0, 1, 2 :: nat] - 1"
    by (simp_all add: valid_axis_def)
  from controlled_block_one_per_other_qubit [OF h]
  obtain nm where "''Y'' \<noteq> ''Z'' \<longrightarrow> nm = ''CR'' @ ''Y''"
    and "build_controlled_rotation_block ''Y'' [0, 1, 2] [3, 4] 1 =
             Inr (map (\<lambda>(q, t). Gate nm [t] [1, q])
                    (zip (filter (\<lambda>q. q \<noteq> 1) [0, 1, 2]) [3, 4]))"
    by blast
  then have "build_controlled_rotation_block ''Y'' [0, 1, 2] [3, 4] 1
        = Inr [Gate ''CRY'' [3] [1, 0], Gate ''CRY'' [4] [1, 2]]"
    by simp
  with h show ?thesis by simp
qed

text \<open>
  C7. If an instruction of the program refers to a qubit that has no entry in the
  position-reversal mapping built from the ordering, \<open>dagger_and_flip\<close> ends with the
  KeyError of the failed lookup (a LookupError); nothing in the function catches it.
\<close>

theorem dagger_and_flip_unmapped_qubit:
  assumes "g \<in> set prog" and "q \<in> set (gate_qubits g)" and "qubits_reversed qs q = None"
  shows "dagger_and_flip prog qs = Inl KeyError"
proof -
  have "\<not> set (gate_qubits g) \<subseteq> dom (qubits_reversed qs)"
    using assms(2,3) by auto
  with assms(1)
  have "\<exists>g \<in> set (rev prog). \<not> set (gate_qubits g) \<subseteq> dom (qubits_reversed qs)"
    by auto
  then show ?thesis unfolding dagger_and_flip_def by (rule flip_loop_fail)
qed

theorem dagger_and_flip_unmapped_qubit_witness:
  "Gate ''RX'' [1] [5] \<in> set [Gate ''RX'' [1] [5], Gate ''RY'' [2] [0]]
   \<and> (5::nat) \<in> set (gate_qubits (Gate ''RX'' [1] [5]))
   \<and> qubits_reversed [0, 1] 5 = None
   \<and> dagger_and_flip [Gate ''RX'' [1] [5], Gate ''RY'' [2] [0]] [0, 1] = Inl KeyError"
proof -
  have h: "Gate ''RX'' [1] [5] \<in> set [Gate ''RX'' [1] [5], Gate ''RY'' [2] [0]]"
    "(5::nat) \<in> set (gate_qubits (Gate ''RX'' [1] [5]))"
    "qubits_reversed [0, 1] 5 = None"
    by (simp_all add: qubits_reversed_def py_dict_def)
  from dagger_and_flip_unmapped_qubit [OF h] h show ?thesis by simp
qed

text \<open>
  C2. \<open>dagger_and_flip\<close> applied twice over the same duplicate-free ordering should give
  the program back. It does for instructions named RX, RY, RZ, CRX and CRY
  (\<open>dagger_and_flip_twice_rotation\<close>), but not for an instruction named CRZ: the
  registry entry under CRZ is the constructor of \<open>crx_def\<close>, so the instruction is
  rebuilt under the name CRX and stays CRX the second time.
\<close>

theorem dagger_and_flip_twice_CRZ:
  "dagger_and_flip [Gate ''CRZ'' [2] [0, 1]] [0, 1] = Inr [Gate ''CRX'' [- 2] [1, 0]]
   \<and> dagger_and_flip [Gate ''CRX'' [- 2] [1, 0]] [0, 1] = Inr [Gate ''CRX'' [2] [0, 1]]
   \<and> (case dagger_and_flip [Gate ''CRZ'' [2] [0, 1]] [0, 1] of
         Inl e \<Rightarrow> Inl e
       | Inr prog' \<Rightarrow> dagger_and_flip prog' [0, 1]) \<noteq> Inr [Gate ''CRZ'' [2] [0, 1]]
   \<and> (case dagger_and_flip [Gate ''CRY'' [2] [0, 1]] [0, 1] of
         Inl e \<Rightarrow> Inl e
       | Inr prog' \<Rightarrow> dagger_and_flip prog' [0, 1]) = Inr [Gate ''CRY'' [2] [0, 1]]"
  by (simp add: dagger_and_flip_def qubits_reversed_def py_dict_def gates_dict_simps
      CRX_def CRY_def CRZ_def get_constructor_def crx_def_def cry_def_def)

text \<open>
  C8. The registry entry under the key CRZ, which is what \<open>gate_from_axis\<close> returns for
  axis Z and two qubits, is the constructor of the controlled-X definition \<open>crx_def\<close>:
  it emits instructions named CRX, whose matrix is \<open>crx\<close> and not the diagonal matrix
  \<open>crz\<close> (they differ at theta = pi).
\<close>

theorem CRZ_entry_built_from_crx_def:
  "gates_dict ''CRZ'' = Some (get_constructor crx_def)
   \<and> gate_from_axis ''Z'' 2 = Inr (get_constructor crx_def)
   \<and> get_constructor crx_def [theta] [c, t] = Gate ''CRX'' [theta] [c, t]
   \<and> get_constructor crz_def [theta] [c, t] = Gate ''CRZ'' [theta] [c, t]
   \<and> def_matrix crx_def = crx
   \<and> crx pi \<noteq> crz pi"
proof -
  have "crx pi ! 2 ! 2 = 0" by (simp add: crx_def)
  moreover have "crz pi ! 2 ! 2 = - \<i>" by (simp add: crz_def)
  ultimately have "crx pi \<noteq> crz pi" by auto
  then show ?thesis
    by (simp add: gates_dict_simps gate_from_axis_2 CRZ_def get_constructor_def crx_def_def
        crz_def_def)
qed

text \<open>
  C9. Without an \<open>axes\<close> argument the object gets \<open>n + 2\<close> copies of X, where
  \<open>n = (num_qubits + num_latent_qubits) div 2\<close>; without a \<open>qubits\<close> argument it
  gets the ordering \<open>0, ..., num_qubits - 1\<close>; the object, and so the circuit built from
  it, is the same as when these lists are passed explicitly.
\<close>

theorem init_defaults:
  "axes (init n l ths None qs) = replicate ((n + l) div 2 + 2) ''X''
   \<and> num_input_qubits (init n l ths ax qs) = (n + l) div 2
   \<and> qubits (init n l ths ax None) = [0..<n]
   \<and> init n l ths None None = init n l ths (Some (replicate ((n + l) div 2 + 2) ''X'')) (Some [0..<n])
   \<and> build_circuit (init n l ths None None)
       = build_circuit (init n l ths (Some (replicate ((n + l) div 2 + 2) ''X'')) (Some [0..<n]))"
  by (simp add: init_def Let_def)

text \<open>
  C3. For every valid configuration with \<open>n\<close> input qubits, \<open>build_circuit\<close> returns the
  encode stage (the program the object holds afterwards) followed by the decode stage
  (\<open>dagger_and_flip\<close> of the encode stage over the full ordering); the encode stage has
  \<open>n + n(n-1) + n = 2n + n(n-1)\<close> instructions and the decode stage as many.
\<close>

theorem build_circuit_encode_then_decode:
  assumes "valid_config c"
  shows "\<exists>encode decode.
      build_circuit c = (Inr (encode @ decode), c\<lparr>program := encode\<rparr>)
      \<and> dagger_and_flip encode (qubits c) = Inr decode
      \<and> length encode = num_input_qubits c + num_input_qubits c * (num_input_qubits c - 1)
            + num_input_qubits c
      \<and> length encode = 2 * num_input_qubits c + num_input_qubits c * (num_input_qubits c - 1)
      \<and> length decode = length encode"
proof -
  note s = valid_config_shape [OF assms]
  let ?e = "encode_stage c"
  let ?d = "map (dagger_gate (qubits_reversed (qubits c))) (rev ?e)"
  have "\<forall>g \<in> set ?e. rotation_name (gate_name g) \<and> set (gate_qubits g) \<subseteq> set (qubits c)"
    using encode_stage_gates [OF s(1,3,4)] by auto
  then have 1: "dagger_and_flip ?e (qubits c) = Inr ?d" by (rule dagger_and_flip_ok)
  have 2: "length ?e = 2 * num_input_qubits c + num_input_qubits c * (num_input_qubits c - 1)"
    by (rule length_encode_stage [OF s(1,2,5)])
  then have 3: "length ?e = num_input_qubits c + num_input_qubits c * (num_input_qubits c - 1)
      + num_input_qubits c" by simp
  have 4: "length ?d = length ?e" by simp
  from build_circuit_valid [OF assms] 1 2 3 4 show ?thesis by blast
qed

theorem build_circuit_encode_then_decode_witness:
  "valid_config (init 4 0 [1, 2, 3, 4, 5, 6] None None)
   \<and> (\<exists>encode decode.
         build_circuit (init 4 0 [1, 2, 3, 4, 5, 6] None None)
           = (Inr (encode @ decode), (init 4 0 [1, 2, 3, 4, 5, 6] None None)\<lparr>program := encode\<rparr>)
         \<and> dagger_and_flip encode [0, 1, 2, 3] = Inr decode
         \<and> length encode = 6 \<and> length decode = 6)"
proof -
  let ?c = "init 4 0 [1, 2, 3, 4, 5, 6] None None"
  have h: "valid_config ?c"
    by (simp add: valid_config_def init_def valid_axis_def upt_conv_Cons list_all_iff)
  have n: "num_input_qubits ?c = 2" "qubits ?c = [0, 1, 2, 3]"
    by (simp_all add: init_def upt_conv_Cons)
  from build_circuit_encode_then_decode [OF h]
  obtain encode decode where
    "build_circuit ?c = (Inr (encode @ decode), ?c\<lparr>program := encode\<rparr>)"
    "dagger_and_flip encode (qubits ?c) = Inr decode"
    "length encode = 2 * num_input_qubits ?c + num_input_qubits ?c * (num_input_qubits ?c - 1)"
    "length decode = length encode"
    by blast
  then have "build_circuit ?c = (Inr (encode @ decode), ?c\<lparr>program := encode\<rparr>)
      \<and> dagger_and_flip encode [0, 1, 2, 3] = Inr decode
      \<and> length encode = 6 \<and> length decode = 6"
    unfolding n by simp
  with h show ?thesis by blast
qed

text \<open>
  C1. For every valid configuration the \<open>k\<close>-th instruction of the decode stage is made
  from the instruction at position \<open>len(encode) - 1 - k\<close> of the encode stage: it has the
  same gate name, every angle negated and every qubit replaced through the
  position-reversal mapping of the full ordering, in the same order (so the control
  stays first). The mapping sends the qubit at position \<open>j\<close> of the ordering to the one
  at position \<open>len - 1 - j\<close>.
\<close>

theorem decode_mirrors_encode:
  assumes "valid_config c"
  shows "\<exists>encode decode.
      build_circuit c = (Inr (encode @ decode), c\<lparr>program := encode\<rparr>)
      \<and> length decode = length encode
      \<and> (\<forall>k<length decode.
            gate_name (decode ! k) = gate_name (encode ! (length encode - 1 - k))
            \<and> gate_params (decode ! k)
                = map uminus (gate_params (encode ! (length encode - 1 - k)))
            \<and> gate_qubits (decode ! k)
                = map (\<lambda>q. the (qubits_reversed (qubits c) q))
                    (gate_qubits (encode ! (length encode - 1 - k)))
            \<and> set (gate_qubits (encode ! (length encode - 1 - k))) \<subseteq> set (qubits c))
      \<and> (\<forall>j<length (qubits c).
            qubits_reversed (qubits c) (qubits c ! j)
              = Some (qubits c ! (length (qubits c) - 1 - j)))"
proof -
  note s = valid_config_shape [OF assms]
  let ?m = "qubits_reversed (qubits c)"
  let ?e = "encode_stage c"
  let ?d = "map (dagger_gate ?m) (rev ?e)"
  have gs: "rotation_name (gate_name g) \<and> set (gate_qubits g) \<subseteq> set (qubits c)"
    if "g \<in> set ?e" for g
    using encode_stage_gates [OF s(1,3,4) that] .
  have dg: "gate_name (dagger_gate ?m g) = gate_name g
      \<and> gate_params (dagger_gate ?m g) = map uminus (gate_params g)
      \<and> gate_qubits (dagger_gate ?m g) = map (\<lambda>q. the (?m q)) (gate_qubits g)
      \<and> set (gate_qubits g) \<subseteq> set (qubits c)"
    if "g \<in> set ?e" for g
    using gs [OF that] by (simp add: dagger_gate_rotation)
  have "gate_name (?d ! k) = gate_name (?e ! (length ?e - 1 - k))
      \<and> gate_params (?d ! k) = map uminus (gate_params (?e ! (length ?e - 1 - k)))
      \<and> gate_qubits (?d ! k) = map (\<lambda>q. the (?m q)) (gate_qubits (?e ! (length ?e - 1 - k)))
      \<and> set (gate_qubits (?e ! (length ?e - 1 - k))) \<subseteq> set (qubits c)"
    if k: "k < length ?d" for k
  proof -
    from k have k': "k < length ?e" by simp
    then have "length ?e - 1 - k < length ?e" by simp
    then have "?e ! (length ?e - 1 - k) \<in> set ?e" by (rule nth_mem)
    moreover have "?d ! k = dagger_gate ?m (?e ! (length ?e - 1 - k))"
      using k' by (simp add: rev_nth Suc_diff_Suc)
    ultimately show ?thesis using dg by simp
  qed
  moreover have "\<forall>j<length (qubits c). ?m (qubits c ! j) = Some (qubits c ! (length (qubits c) - 1 - j))"
    using qubits_reversed_nth [OF s(2)] by simp
  moreover have "length ?d = length ?e" by simp
  ultimately show ?thesis
    using build_circuit_valid [OF assms] by blast
qed

theorem decode_mirrors_encode_witness:
  "valid_config (init 4 0 [1, 2, 3, 4, 5, 6] None None)
   \<and> (\<exists>encode decode.
      build_circuit (init 4 0 [1, 2, 3, 4, 5, 6] None None)
        = (Inr (encode @ decode), (init 4 0 [1, 2, 3, 4, 5, 6] None None)\<lparr>program := encode\<rparr>)
      \<and> length decode = length encode
      \<and> (\<forall>k<length decode.
            gate_name (decode ! k) = gate_name (encode ! (length encode - 1 - k))
            \<and> gate_params (decode ! k)
                = map uminus (gate_params (encode ! (length encode - 1 - k)))
            \<and> gate_qubits (decode ! k)
                = map (\<lambda>q. the (qubits_reversed (qubits (init 4 0 [1, 2, 3, 4, 5, 6] None None)) q))
                    (gate_qubits (encode ! (length encode - 1 - k)))
            \<and> set (gate_qubits (encode ! (length encode - 1 - k)))
                \<subseteq> set (qubits (init 4 0 [1, 2, 3, 4, 5, 6] None None)))
      \<and> (\<forall>j<length (qubits (init 4 0 [1, 2, 3, 4, 5, 6] None None)).
            qubits_reversed (qubits (init 4 0 [1, 2, 3, 4, 5, 6] None None))
                (qubits (init 4 0 [1, 2, 3, 4, 5, 6] None None) ! j)
              = Some (qubits (init 4 0 [1, 2, 3, 4, 5, 6] None None)
                        ! (length (qubits (init 4 0 [1, 2, 3, 4, 5, 6] None None)) - 1 - j))))
   \<and> fst (build_circuit (init 4 0 [1, 2, 3, 4, 5, 6] None None)) =
       Inr [Gate ''RX'' [1] [0], Gate ''RX'' [2] [1], Gate ''CRX'' [3] [0, 1],
          Gate ''CRX'' [4] [1, 0], Gate ''RX'' [5] [0], Gate ''RX'' [6] [1],
          Gate ''RX'' [- 6] [2], Gate ''RX'' [- 5] [3], Gate ''CRX'' [- 4] [2, 3],
          Gate ''CRX'' [- 3] [3, 2], Gate ''RX'' [- 2] [2], Gate ''RX'' [- 1] [3]]"
proof -
  let ?c = "init 4 0 [1, 2, 3, 4, 5, 6] None None"
  have h: "valid_config ?c"
    by (simp add: valid_config_def init_def valid_axis_def upt_conv_Cons list_all_iff)
  have e: "fst (build_circuit ?c) =
       Inr [Gate ''RX'' [1] [0], Gate ''RX'' [2] [1], Gate ''CRX'' [3] [0, 1],
          Gate ''CRX'' [4] [1, 0], Gate ''RX'' [5] [0], Gate ''RX'' [6] [1],
          Gate ''RX'' [- 6] [2], Gate ''RX'' [- 5] [3], Gate ''CRX'' [- 4] [2, 3],
          Gate ''CRX'' [- 3] [3, 2], Gate ''RX'' [- 2] [2], Gate ''RX'' [- 1] [3]]"
    by (simp add: eval_defs eval_more rep4)
  from h decode_mirrors_encode [OF h] e show ?thesis by (intro conjI)
qed

text \<open>
  C6, as amended. \<open>build_circuit\<close> is a function of the whole object, the accumulated
  \<open>self.program\<close> included. On a valid, freshly constructed configuration it returns
  encode followed by decode, leaves every other field as it was and stores the encode
  stage in \<open>self.program\<close>; a second call on that object appends the encode stage once
  more and returns the doubled encode stage followed by its own decode stage. The
  instructions already in the program are kept as they are.
\<close>

theorem build_circuit_accumulates:
  assumes "valid_config c"
  shows "\<exists>encode decode decode'.
      build_circuit c = (Inr (encode @ decode), c\<lparr>program := encode\<rparr>)
      \<and> length encode = 2 * num_input_qubits c + num_input_qubits c * (num_input_qubits c - 1)
      \<and> length decode = length encode
      \<and> build_circuit (c\<lparr>program := encode\<rparr>)
          = (Inr ((encode @ encode) @ decode'), c\<lparr>program := encode @ encode\<rparr>)
      \<and> length decode' = 2 * length encode"
proof -
  note s = valid_config_shape [OF assms]
  let ?m = "qubits_reversed (qubits c)"
  let ?e = "encode_stage c"
  let ?d = "map (dagger_gate ?m) (rev ?e)"
  let ?d' = "map (dagger_gate ?m) (rev (?e @ ?e))"
  let ?c' = "c\<lparr>program := ?e\<rparr>"
  have 1: "build_circuit c = (Inr (?e @ ?d), ?c')" by (rule build_circuit_valid [OF assms])
  have 2: "length ?e = 2 * num_input_qubits c + num_input_qubits c * (num_input_qubits c - 1)"
    by (rule length_encode_stage [OF s(1,2,5)])
  have 3: "length ?d = length ?e" by simp
  have "\<forall>g \<in> set (program ?c').
      rotation_name (gate_name g) \<and> set (gate_qubits g) \<subseteq> set (qubits ?c')"
    using encode_stage_gates [OF s(1,3,4)] by simp
  from build_circuit_ok [of ?c', OF _ _ _ _ _ this] s
  have 4: "build_circuit ?c' = (Inr ((?e @ ?e) @ ?d'), c\<lparr>program := ?e @ ?e\<rparr>)" by simp
  have 5: "length ?d' = 2 * length ?e" by simp
  from 1 2 3 4 5 show ?thesis by blast
qed

theorem build_circuit_accumulates_witness:
  "valid_config (init 2 0 [1, 2] None None)
   \<and> (\<exists>encode decode decode'.
      build_circuit (init 2 0 [1, 2] None None)
        = (Inr (encode @ decode), (init 2 0 [1, 2] None None)\<lparr>program := encode\<rparr>)
      \<and> length encode = 2
      \<and> length decode = length encode
      \<and> build_circuit ((init 2 0 [1, 2] None None)\<lparr>program := encode\<rparr>)
          = (Inr ((encode @ encode) @ decode'),
             (init 2 0 [1, 2] None None)\<lparr>program := encode @ encode\<rparr>)
      \<and> length decode' = 2 * length encode)"
proof -
  let ?c = "init 2 0 [1, 2] None None"
  have h: "valid_config ?c"
    by (simp add: valid_config_def init_def valid_axis_def upt_conv_Cons list_all_iff)
  have n: "2 * num_input_qubits ?c + num_input_qubits ?c * (num_input_qubits ?c - 1) = 2"
    by (simp add: init_def)
  from build_circuit_accumulates [OF h] have "\<exists>encode decode decode'.
      build_circuit ?c = (Inr (encode @ decode), ?c\<lparr>program := encode\<rparr>)
      \<and> length encode = 2
      \<and> length decode = length encode
      \<and> build_circuit (?c\<lparr>program := encode\<rparr>)
          = (Inr ((encode @ encode) @ decode'), ?c\<lparr>program := encode @ encode\<rparr>)
      \<and> length decode' = 2 * length encode"
    unfolding n .
  with h show ?thesis by (rule conjI)
qed

text \<open>
  C6, as stated, fails: after \<open>build_circuit\<close> the object is not the one it was, and
  calling \<open>build_circuit\<close> again on it returns a different program.
\<close>

theorem build_circuit_pure_counterexample:
  "valid_config (init 2 0 [1, 2] None None)
   \<and> fst (build_circuit (init 2 0 [1, 2] None None))
       = Inr [Gate ''RX'' [1] [0], Gate ''RX'' [2] [0], Gate ''RX'' [- 2] [1], Gate ''RX'' [- 1] [1]]
   \<and> snd (build_circuit (init 2 0 [1, 2] None None)) \<noteq> init 2 0 [1, 2] None None
   \<and> fst (build_circuit (snd (build_circuit (init 2 0 [1, 2] None None))))
       = Inr [Gate ''RX'' [1] [0], Gate ''RX'' [2] [0], Gate ''RX'' [1] [0], Gate ''RX'' [2] [0],
              Gate ''RX'' [- 2] [1], Gate ''RX'' [- 1] [1], Gate ''RX'' [- 2] [1],
              Gate ''RX'' [- 1] [1]]
   \<and> fst (build_circuit (snd (build_circuit (init 2 0 [1, 2] None None))))
       \<noteq> fst (build_circuit (init 2 0 [1, 2] None None))"
proof -
  let ?c = "init 2 0 [1, 2] None None"
  have h: "valid_config ?c"
    by (simp add: valid_config_def init_def valid_axis_def upt_conv_Cons list_all_iff)
  have 1: "build_circuit ?c =
    (Inr [Gate ''RX'' [1] [0], Gate ''RX'' [2] [0], Gate ''RX'' [- 2] [1], Gate ''RX'' [- 1] [1]],
     ?c\<lparr>program := [Gate ''RX'' [1] [0], Gate ''RX'' [2] [0]]\<rparr>)"
    by (simp add: eval_defs eval_more rep4)
  have 2: "fst (build_circuit (?c\<lparr>program := [Gate ''RX'' [1] [0], Gate ''RX'' [2] [0]]\<rparr>)) =
     Inr [Gate ''RX'' [1] [0], Gate ''RX'' [2] [0], Gate ''RX'' [1] [0], Gate ''RX'' [2] [0],
              Gate ''RX'' [- 2] [1], Gate ''RX'' [- 1] [1], Gate ''RX'' [- 2] [1],
              Gate ''RX'' [- 1] [1]]"
    by (simp add: eval_defs eval_more rep4)
  have 3: "?c\<lparr>program := [Gate ''RX'' [1] [0], Gate ''RX'' [2] [0]]\<rparr> \<noteq> ?c"
    by (simp add: init_def Let_def)
  from h 1 2 3 show ?thesis by simp
qed

text \<open>
  C10. If the axis at position \<open>j\<close> (one that \<open>build_circuit\<close> uses, \<open>j \<le> n + 1\<close>) is
  the first that is not X, Y or Z, the lookup of the gate raises KeyError when block
  \<open>j\<close> is built: the instructions of the blocks \<open>0\<close> to \<open>j - 1\<close> are in
  \<open>self.program\<close> by then (\<open>n\<close> for the initial block and \<open>n - 1\<close> for each controlled
  block), and nothing rejects the axis before the first instruction.
\<close>

theorem invalid_axis_fails_at_its_block:
  assumes n: "num_input_qubits c \<le> length (qubits c)"
    and d: "distinct (qubits c)"
    and a: "length (axes c) = num_input_qubits c + 2"
    and t: "2 * num_input_qubits c + num_input_qubits c * (num_input_qubits c - 1) \<le> length (thetas c)"
    and j: "j < num_input_qubits c + 2"
    and v: "\<forall>k<j. valid_axis (axes c ! k)"
    and b: "\<not> valid_axis (axes c ! j)"
  shows "build_circuit c =
      (Inl KeyError, c\<lparr>program := program c @ concat (map (encode_block c) [0..<j])\<rparr>)
    \<and> length (concat (map (encode_block c) [0..<j]))
        = (if j = 0 then 0 else num_input_qubits c + (j - 1) * (num_input_qubits c - 1))"
proof -
  let ?n = "num_input_qubits c"
  have te: "thetas_end ?n k \<le> length (thetas c)" if "k \<le> ?n + 1" for k
    using thetas_end_mono [OF that] t by simp
  have ok: "block_result c k = Inr (encode_block c k)" if "k < j" for k
  proof -
    from that j have k: "k < length (axes c)" "k \<le> ?n + 1" using a by auto
    show ?thesis using block_result_ok [OF n d k] v that te [OF k(2)] by simp
  qed
  have j': "j < length (axes c)" "j \<le> ?n + 1" using j a by auto
  have bad: "block_result c j = Inl KeyError"
    by (rule block_result_invalid_axis [OF n j' b])
  have "length (concat (map (encode_block c) [0..<j]))
        = (if j = 0 then 0 else ?n + (j - 1) * (?n - 1))"
    using length_blocks_prefix [OF n d _ j'(2)] te j'(2) by simp
  with build_circuit_fail [OF j ok bad] show ?thesis by simp
qed

theorem invalid_axis_fails_at_its_block_witness:
  "num_input_qubits (init 4 0 [1, 2, 3, 4, 5, 6] (Some [''X'', ''Y'', ''W'', ''X'']) None)
     \<le> length (qubits (init 4 0 [1, 2, 3, 4, 5, 6] (Some [''X'', ''Y'', ''W'', ''X'']) None))
   \<and> \<not> valid_axis (axes (init 4 0 [1, 2, 3, 4, 5, 6] (Some [''X'', ''Y'', ''W'', ''X'']) None) ! 2)
   \<and> valid_axis (axes (init 4 0 [1, 2, 3, 4, 5, 6] (Some [''X'', ''Y'', ''W'', ''X'']) None) ! 0)
   \<and> valid_axis (axes (init 4 0 [1, 2, 3, 4, 5, 6] (Some [''X'', ''Y'', ''W'', ''X'']) None) ! 1)
   \<and> build_circuit (init 4 0 [1, 2, 3, 4, 5, 6] (Some [''X'', ''Y'', ''W'', ''X'']) None) =
      (Inl KeyError,
       (init 4 0 [1, 2, 3, 4, 5, 6] (Some [''X'', ''Y'', ''W'', ''X'']) None)
         \<lparr>program := [Gate ''RX'' [1] [0], Gate ''RX'' [2] [1], Gate ''CRY'' [3] [0, 1]]\<rparr>)
   \<and> length (concat (map (encode_block
          (init 4 0 [1, 2, 3, 4, 5, 6] (Some [''X'', ''Y'', ''W'', ''X'']) None)) [0..<2])) = 3"
proof -
  let ?c = "init 4 0 [1, 2, 3, 4, 5, 6] (Some [''X'', ''Y'', ''W'', ''X'']) None"
  have f: "num_input_qubits ?c = 2" "qubits ?c = [0, 1, 2, 3]" "program ?c = []"
    "axes ?c = [''X'', ''Y'', ''W'', ''X'']" "thetas ?c = [1, 2, 3, 4, 5, 6]"
    by (simp_all add: init_def upt_conv_Cons)
  have h: "num_input_qubits ?c \<le> length (qubits ?c)" "distinct (qubits ?c)"
    "length (axes ?c) = num_input_qubits ?c + 2"
    "2 * num_input_qubits ?c + num_input_qubits ?c * (num_input_qubits ?c - 1) \<le> length (thetas ?c)"
    "2 < num_input_qubits ?c + 2"
    "\<forall>k<2. valid_axis (axes ?c ! k)"
    "\<not> valid_axis (axes ?c ! 2)"
    unfolding f by (simp_all add: valid_axis_def less_2_cases_iff)
  have e: "concat (map (encode_block ?c) [0..<2])
      = [Gate ''RX'' [1] [0], Gate ''RX'' [2] [1], Gate ''CRY'' [3] [0, 1]]"
    by (simp add: encode_block_def f eval_defs eval_more)
  from invalid_axis_fails_at_its_block [OF h] h show ?thesis
    unfolding e f(3) by simp
qed

text \<open>
  C5, as amended. With fewer than \<open>2n + n(n-1)\<close> angles (and the configuration valid
  otherwise) \<open>build_circuit\<close> fails with IndexError, raised by the first block whose
  slice of \<open>thetas\<close> is too short: the block \<open>j\<close> such that the angles do not reach
  the end of block \<open>j\<close> but reach the end of every block before it. Exactly the
  blocks \<open>0\<close> to \<open>j - 1\<close>, complete, stay in \<open>self.program\<close>, and nothing of block
  \<open>j\<close>. With exactly one angle missing that block is the final rotation block, after
  the \<open>n + n(n-1)\<close> instructions of all the others.
\<close>

theorem short_thetas_fail_late:
  assumes n: "num_input_qubits c \<le> length (qubits c)"
    and d: "distinct (qubits c)"
    and a: "length (axes c) = num_input_qubits c + 2" "list_all valid_axis (axes c)"
    and t: "length (thetas c) < 2 * num_input_qubits c + num_input_qubits c * (num_input_qubits c - 1)"
  shows "\<exists>j\<le>num_input_qubits c + 1.
      length (thetas c) < thetas_end (num_input_qubits c) j
      \<and> (\<forall>k<j. thetas_end (num_input_qubits c) k \<le> length (thetas c))
      \<and> build_circuit c =
          (Inl IndexError, c\<lparr>program := program c @ concat (map (encode_block c) [0..<j])\<rparr>)
      \<and> length (concat (map (encode_block c) [0..<j]))
          = (if j = 0 then 0 else num_input_qubits c + (j - 1) * (num_input_qubits c - 1))
      \<and> (length (thetas c) + 1
            = 2 * num_input_qubits c + num_input_qubits c * (num_input_qubits c - 1)
          \<longrightarrow> j = num_input_qubits c + 1
              \<and> length (concat (map (encode_block c) [0..<j]))
                  = num_input_qubits c + num_input_qubits c * (num_input_qubits c - 1))"
proof -
  let ?n = "num_input_qubits c"
  let ?len = "length (thetas c)"
  let ?short = "\<lambda>k. ?len < thetas_end ?n k"
  define j where "j = (LEAST k. ?short k)"
  have va: "valid_axis (axes c ! k)" if "k < ?n + 2" for k
    using a that by (simp add: list_all_length)
  have ex: "?short (?n + 1)" using t by (simp add: thetas_end_def)
  then have js: "?short j" unfolding j_def by (rule LeastI)
  have jle: "j \<le> ?n + 1" unfolding j_def using ex by (rule Least_le)
  have before: "thetas_end ?n k \<le> ?len" if "k < j" for k
    using not_less_Least [of k ?short] that unfolding j_def by auto
  have ok: "block_result c k = Inr (encode_block c k)" if "k < j" for k
  proof -
    from that jle have k: "k < length (axes c)" "k \<le> ?n + 1" using a(1) by auto
    show ?thesis using block_result_ok [OF n d k _ before [OF that]] va k(2) by simp
  qed
  have jl: "j < length (axes c)" using jle a(1) by simp
  have vj: "valid_axis (axes c ! j)" using va jle by simp
  consider "j = 0" | "0 < j" "j \<le> ?n" | "j = ?n + 1" "0 < j" using jle by linarith
  then have bad: "block_result c j = Inl IndexError"
  proof cases
    case 1
    then show ?thesis
      using block_result_rotation [OF n jl _ vj] js by (simp add: thetas_end_def)
  next
    case 2
    then obtain j' where j': "j = Suc j'" by (cases j) auto
    have s: "?len < ?n + (?n - 1) * j' + (?n - 1)"
      using js 2 by (simp add: thetas_end_def j')
    have p: "thetas_end ?n j' \<le> ?len" using before [of j'] j' by simp
    have p': "?n \<le> ?len"
    proof (cases "j' = 0")
      case True
      with p show ?thesis by (simp add: thetas_end_def)
    next
      case False
      with p 2 j' show ?thesis by (simp add: thetas_end_def)
    qed
    have "\<not> ?n - 1 \<le> ?len - (?n + (?n - 1) * j')"
    proof
      assume le: "?n - 1 \<le> ?len - (?n + (?n - 1) * j')"
      show False
      proof (cases "?n - 1 = 0")
        case True
        with s p' show False by simp
      next
        case False
        with le s show False by linarith
      qed
    qed
    then show ?thesis
      using block_result_controlled [OF n d jl 2 vj] by (simp add: j')
  next
    case 3
    then show ?thesis
      using block_result_last_short [OF n _ _ t] va a(1) by simp
  qed
  have jlt: "j < ?n + 2" using jle by simp
  have 1: "build_circuit c =
      (Inl IndexError, c\<lparr>program := program c @ concat (map (encode_block c) [0..<j])\<rparr>)"
    by (rule build_circuit_fail [OF jlt ok bad])
  have 2: "length (concat (map (encode_block c) [0..<j]))
      = (if j = 0 then 0 else ?n + (j - 1) * (?n - 1))"
    using length_blocks_prefix [OF n d _ jle] before by simp
  have 3: "j = ?n + 1 \<and> length (concat (map (encode_block c) [0..<j])) = ?n + ?n * (?n - 1)"
    if one: "?len + 1 = 2 * ?n + ?n * (?n - 1)"
  proof -
    have te: "thetas_end ?n k \<le> ?len" if "k \<le> ?n" for k
    proof -
      have "(?n - 1) * k \<le> (?n - 1) * ?n" using that by (rule mult_le_mono2)
      also have "\<dots> = ?n * (?n - 1)" by (rule mult.commute)
      finally have A: "?n + (?n - 1) * k \<le> ?n + ?n * (?n - 1)" by simp
      have B: "0 < ?n" using one by (cases "?n") auto
      have C: "?n + (?n - 1) * k \<le> ?len" using A B one by linarith
      have D: "?n \<le> ?len" using B one by linarith
      show ?thesis unfolding thetas_end_def using C D that by simp
    qed
    have "\<not> j \<le> ?n"
    proof
      assume "j \<le> ?n"
      from te [OF this] js show False by simp
    qed
    with jle have j: "j = ?n + 1" by simp
    with 2 show ?thesis by (simp add: mult.commute)
  qed
  from jle js before 1 2 3 show ?thesis by blast
qed

theorem short_thetas_fail_late_witness:
  "length (thetas (init 6 0 [1, 2, 3, 4] None None))
     < 2 * num_input_qubits (init 6 0 [1, 2, 3, 4] None None)
       + num_input_qubits (init 6 0 [1, 2, 3, 4] None None)
         * (num_input_qubits (init 6 0 [1, 2, 3, 4] None None) - 1)
   \<and> list_all valid_axis (axes (init 6 0 [1, 2, 3, 4] None None))
   \<and> thetas_end 3 0 \<le> length [1, 2, 3, 4 :: real]
   \<and> length [1, 2, 3, 4 :: real] < thetas_end 3 1
   \<and> build_circuit (init 6 0 [1, 2, 3, 4] None None) =
      (Inl IndexError,
       (init 6 0 [1, 2, 3, 4] None None)
         \<lparr>program := [Gate ''RX'' [1] [0], Gate ''RX'' [2] [1], Gate ''RX'' [3] [2]]\<rparr>)
   \<and> length (thetas (init 4 0 [1, 2, 3, 4, 5] None None)) + 1
     = 2 * num_input_qubits (init 4 0 [1, 2, 3, 4, 5] None None)
       + num_input_qubits (init 4 0 [1, 2, 3, 4, 5] None None)
         * (num_input_qubits (init 4 0 [1, 2, 3, 4, 5] None None) - 1)
   \<and> list_all valid_axis (axes (init 4 0 [1, 2, 3, 4, 5] None None))
   \<and> build_circuit (init 4 0 [1, 2, 3, 4, 5] None None) =
      (Inl IndexError,
       (init 4 0 [1, 2, 3, 4, 5] None None)
         \<lparr>program := [Gate ''RX'' [1] [0], Gate ''RX'' [2] [1], Gate ''CRX'' [3] [0, 1],
                      Gate ''CRX'' [4] [1, 0]]\<rparr>)"
proof -
  let ?b = "init 6 0 [1, 2, 3, 4] None None"
  have rep5: "replicate 5 x = [x, x, x, x, x]" for x :: string
    by (simp add: numeral_eq_Suc)
  have fb: "num_input_qubits ?b = 3" "qubits ?b = [0, 1, 2, 3, 4, 5]" "program ?b = []"
    "axes ?b = [''X'', ''X'', ''X'', ''X'', ''X'']" "thetas ?b = [1, 2, 3, 4]"
    by (simp_all add: init_def upt_conv_Cons rep4 rep5)
  have hb: "num_input_qubits ?b \<le> length (qubits ?b)" "distinct (qubits ?b)"
    "length (axes ?b) = num_input_qubits ?b + 2" "list_all valid_axis (axes ?b)"
    "length (thetas ?b) < 2 * num_input_qubits ?b + num_input_qubits ?b * (num_input_qubits ?b - 1)"
    unfolding fb by (simp_all add: valid_axis_def)
  have te: "thetas_end 3 0 \<le> length [1, 2, 3, 4 :: real]"
    "length [1, 2, 3, 4 :: real] < thetas_end 3 1"
    by (simp_all add: thetas_end_def)
  from short_thetas_fail_late [OF hb]
  obtain j where j: "length (thetas ?b) < thetas_end (num_input_qubits ?b) j"
    "\<forall>k<j. thetas_end (num_input_qubits ?b) k \<le> length (thetas ?b)"
    "build_circuit ?b =
       (Inl IndexError, ?b\<lparr>program := program ?b @ concat (map (encode_block ?b) [0..<j])\<rparr>)"
    by blast
  have "j \<noteq> 0"
  proof
    assume "j = 0"
    with j(1) have "length (thetas ?b) < thetas_end (num_input_qubits ?b) 0" by simp
    then show False unfolding fb by (simp add: thetas_end_def)
  qed
  moreover have "\<not> 1 < j"
  proof
    assume "1 < j"
    with j(2) have "thetas_end (num_input_qubits ?b) 1 \<le> length (thetas ?b)" by blast
    then show False unfolding fb by (simp add: thetas_end_def)
  qed
  ultimately have j1: "j = 1" by simp
  have eb: "encode_block ?b 0 = [Gate ''RX'' [1] [0], Gate ''RX'' [2] [1], Gate ''RX'' [3] [2]]"
    by (simp add: encode_block_def fb eval_defs eval_more)
  have rb: "build_circuit ?b = (Inl IndexError,
      ?b\<lparr>program := [Gate ''RX'' [1] [0], Gate ''RX'' [2] [1], Gate ''RX'' [3] [2]]\<rparr>)"
    using j(3) unfolding j1 fb(3) by (simp add: eb)
  let ?c = "init 4 0 [1, 2, 3, 4, 5] None None"
  have f: "num_input_qubits ?c = 2" "qubits ?c = [0, 1, 2, 3]" "program ?c = []"
    "axes ?c = [''X'', ''X'', ''X'', ''X'']" "thetas ?c = [1, 2, 3, 4, 5]"
    by (simp_all add: init_def upt_conv_Cons rep2)
  have h: "num_input_qubits ?c \<le> length (qubits ?c)" "distinct (qubits ?c)"
    "length (axes ?c) = num_input_qubits ?c + 2" "list_all valid_axis (axes ?c)"
    "length (thetas ?c) < 2 * num_input_qubits ?c + num_input_qubits ?c * (num_input_qubits ?c - 1)"
    unfolding f by (simp_all add: valid_axis_def)
  have one: "length (thetas ?c) + 1
     = 2 * num_input_qubits ?c + num_input_qubits ?c * (num_input_qubits ?c - 1)"
    unfolding f by simp
  have e: "concat (map (encode_block ?c) [0..<num_input_qubits ?c + 1])
      = [Gate ''RX'' [1] [0], Gate ''RX'' [2] [1], Gate ''CRX'' [3] [0, 1], Gate ''CRX'' [4] [1, 0]]"
    by (simp add: encode_block_def f eval_defs eval_more)
  from short_thetas_fail_late [OF h] one
  have "build_circuit ?c = (Inl IndexError,
      ?c\<lparr>program := program ?c @ concat (map (encode_block ?c) [0..<num_input_qubits ?c + 1])\<rparr>)"
    by blast
  then have rc: "build_circuit ?c = (Inl IndexError,
      ?c\<lparr>program := [Gate ''RX'' [1] [0], Gate ''RX'' [2] [1], Gate ''CRX'' [3] [0, 1],
                      Gate ''CRX'' [4] [1, 0]]\<rparr>)"
    unfolding e f(3) by simp
  from hb(5) hb(4) te rb one h(4) rc show ?thesis by (intro conjI)
qed

text \<open>
  C5, as stated, fails: with one angle of two, the slice past the end of \<open>thetas\<close> is
  the empty list and not an error, the IndexError comes from the final block, and the
  instruction of the initial block is in \<open>self.program\<close> when it is raised.
\<close>

theorem short_thetas_eager_counterexample:
  "length [1 :: real] + 1 = 2 * 1 + 1 * (1 - 1)
   \<and> num_input_qubits (init 2 0 [1] None None) = 1
   \<and> py_slice [1 :: real] 1 2 = []
   \<and> build_circuit (init 2 0 [1] None None) =
       (Inl IndexError, (init 2 0 [1] None None)\<lparr>program := [Gate ''RX'' [1] [0]]\<rparr>)
   \<and> program (snd (build_circuit (init 2 0 [1] None None))) \<noteq> []"
proof -
  have "build_circuit (init 2 0 [1] None None) =
       (Inl IndexError, (init 2 0 [1] None None)\<lparr>program := [Gate ''RX'' [1] [0]]\<rparr>)"
    by (simp add: eval_defs eval_more rep4)
  then show ?thesis by (simp add: py_slice_def init_def)
qed

end
